theory Spec2Isabelle
  imports Complex_Main "HOL-Library.Word"
begin

section \<open>Go primitives used by the helpers\<close>

text \<open>
  A Go \<^verbatim>\<open>string\<close> is a sequence of bytes, as an Isabelle \<^typ>\<open>string\<close> is.
  \<^verbatim>\<open>int\<close> is taken to be 64 bits wide (the 64-bit platforms the tool is built for);
  arithmetic on it wraps around, and \<open>sint\<close> reads its value.
\<close>

type_synonym byte = "8 word"
type_synonym go_int = "64 word"

definition byte_of :: "char \<Rightarrow> byte" where
  "byte_of c = of_char c"

text \<open>
  \<^verbatim>\<open>strconv.ParseUint\<close> and \<^verbatim>\<open>strconv.ParseInt\<close> of the Go standard library, for an
  explicit base between 2 and 36 and bit size 64: an optional sign, then at least one digit
  of the base, letters in either case; no underscores and no base prefix (those belong to
  base 0 only). The value is accumulated digit by digit and an overflow is a range error.
\<close>

datatype NumError = ErrSyntax | ErrRange

definition lower :: "byte \<Rightarrow> byte" where
  "lower c = or c 32"

definition digitVal :: "char \<Rightarrow> byte option" where
  "digitVal ch =
     (let c = byte_of ch in
      if 48 \<le> c \<and> c \<le> 57 then Some (c - 48)
      else if 97 \<le> lower c \<and> lower c \<le> 122 then Some (lower c - 97 + 10)
      else None)"

fun accumDigits :: "nat \<Rightarrow> string \<Rightarrow> nat \<Rightarrow> NumError + nat" where
  "accumDigits base [] n = Inr n"
| "accumDigits base (c # cs) n =
     (case digitVal c of
        None \<Rightarrow> Inl ErrSyntax
      | Some d \<Rightarrow>
          if unat d \<ge> base then Inl ErrSyntax
          else if n * base + unat d \<ge> 2 ^ 64 then Inl ErrRange
          else accumDigits base cs (n * base + unat d))"

definition ParseUint :: "string \<Rightarrow> nat \<Rightarrow> NumError + nat" where
  "ParseUint s base = (if s = [] then Inl ErrSyntax else accumDigits base s 0)"

definition ParseInt :: "string \<Rightarrow> nat \<Rightarrow> NumError + int" where
  "ParseInt s base =
     (if s = [] then Inl ErrSyntax
      else
        let neg = (hd s = CHR ''-'');
            s1 = (if hd s = CHR ''+'' \<or> hd s = CHR ''-'' then tl s else s)
        in case ParseUint s1 base of
             Inl e \<Rightarrow> Inl e
           | Inr un \<Rightarrow>
               if \<not> neg \<and> un \<ge> 2 ^ 63 then Inl ErrRange
               else if neg \<and> un > 2 ^ 63 then Inl ErrRange
               else Inr (if neg then - int un else int un))"

text \<open>\<^verbatim>\<open>strconv.Atoi(s)\<close> is \<^verbatim>\<open>ParseInt(s, 10, 0)\<close> converted to \<^verbatim>\<open>int\<close>.\<close>

definition Atoi :: "string \<Rightarrow> NumError + go_int" where
  "Atoi s = (case ParseInt s 10 of Inl e \<Rightarrow> Inl e | Inr i \<Rightarrow> Inr (word_of_int i))"

section \<open>A1 notation: internal/helpers, A1ToGrid and ParseRange\<close>

definition isUpperAZ :: "char \<Rightarrow> bool" where
  "isUpperAZ c \<longleftrightarrow> byte_of c \<ge> 65 \<and> byte_of c \<le> 90"

text \<open>
  The column loop of \<^verbatim>\<open>A1ToGrid\<close>: while the next byte is an uppercase letter,
  \<^verbatim>\<open>col = col*26 + int(cell[i]-'A'+1)\<close>. The model carries the unread suffix
  \<^verbatim>\<open>cell[i:]\<close> in place of the index \<^verbatim>\<open>i\<close>, and returns it with the column.
\<close>

fun columnLoop :: "string \<Rightarrow> go_int \<Rightarrow> go_int \<times> string" where
  "columnLoop [] col = (col, [])"
| "columnLoop (c # cs) col =
     (if isUpperAZ c then columnLoop cs (col * 26 + ucast (byte_of c - 65 + 1))
      else (col, c # cs))"

definition A1ToGrid :: "string \<Rightarrow> string + (go_int \<times> go_int)" where
  "A1ToGrid cell =
     (case columnLoop cell 0 of
        (col, rest) \<Rightarrow>
          if rest \<noteq> [] then
            (case Atoi rest of
               Inl e \<Rightarrow> Inl (''invalid cell reference: '' @ cell)
             | Inr rowNum \<Rightarrow> Inr (col - 1, rowNum - 1))
          else Inr (col - 1, 0 - 1))"

text \<open>
  \<^verbatim>\<open>strings.Split(s, sep)\<close> for a one-byte separator: the pieces between the
  separators, in order; the empty string gives one empty piece.
\<close>

fun Split :: "string \<Rightarrow> char \<Rightarrow> string list" where
  "Split [] sep = [[]]"
| "Split (c # cs) sep =
     (if c = sep then [] # Split cs sep
      else (case Split cs sep of [] \<Rightarrow> [[c]] | p # ps \<Rightarrow> (c # p) # ps))"

text \<open>
  \<^verbatim>\<open>ParseRange\<close> reads \<^verbatim>\<open>parts[0]\<close> and, when there are more parts than one,
  \<^verbatim>\<open>parts[1]\<close>. An index out of range would panic; it is a branch of the model.
\<close>

definition ParseRange :: "string \<Rightarrow> string + (go_int \<times> go_int \<times> go_int \<times> go_int)" where
  "ParseRange rangeA1 =
     (case Split rangeA1 CHR '':'' of
        [] \<Rightarrow> Inl ''panic: index out of range''
      | p0 # ps \<Rightarrow>
          (case A1ToGrid p0 of
             Inl err \<Rightarrow> Inl err
           | Inr (startCol, startRow) \<Rightarrow>
               if length (p0 # ps) > 1 then
                 (case ps of
                    [] \<Rightarrow> Inl ''panic: index out of range''
                  | p1 # _ \<Rightarrow>
                      (case A1ToGrid p1 of
                         Inl err \<Rightarrow> Inl err
                       | Inr (endCol, endRow) \<Rightarrow> Inr (startCol, startRow, endCol, endRow)))
               else Inr (startCol, startRow, startCol, startRow)))"

section \<open>Colors: internal/helpers/color.go\<close>

text \<open>
  \<^verbatim>\<open>sheets.Color\<close> holds three \<^verbatim>\<open>float64\<close> channels. The model keeps the exact
  quotient \<^verbatim>\<open>r / 255\<close> as a rational number; the \<^verbatim>\<open>float64\<close> of the source is that
  quotient rounded to the nearest representable value, which keeps its sign and keeps 0 and 1.
  A \<^verbatim>\<open>nil\<close> result is \<open>None\<close>.
\<close>

record Color =
  Red :: rat
  Green :: rat
  Blue :: rat

definition HexColorLength :: nat where
  "HexColorLength = 6"

definition RGBMaxValue :: rat where
  "RGBMaxValue = 255"

definition HasPrefix :: "string \<Rightarrow> string \<Rightarrow> bool" where
  "HasPrefix s pre \<longleftrightarrow> length s \<ge> length pre \<and> take (length pre) s = pre"

definition TrimPrefix :: "string \<Rightarrow> string \<Rightarrow> string" where
  "TrimPrefix s pre = (if HasPrefix s pre then drop (length pre) s else s)"

text \<open>The slice \<^verbatim>\<open>s[lo:hi]\<close>, used only where \<^verbatim>\<open>hi\<close> is within the length.\<close>

definition byteSlice :: "string \<Rightarrow> nat \<Rightarrow> nat \<Rightarrow> string" where
  "byteSlice s lo hi = take (hi - lo) (drop lo s)"

definition ParseColor :: "string \<Rightarrow> Color option" where
  "ParseColor hexColor0 =
     (let hexColor = TrimPrefix hexColor0 ''#'' in
      if length hexColor \<noteq> HexColorLength then None
      else
        (case (ParseInt (byteSlice hexColor 0 2) 16,
               ParseInt (byteSlice hexColor 2 4) 16,
               ParseInt (byteSlice hexColor 4 6) 16) of
           (Inr r, Inr g, Inr b) \<Rightarrow>
             Some \<lparr>Red = of_int r / RGBMaxValue,
                   Green = of_int g / RGBMaxValue,
                   Blue = of_int b / RGBMaxValue\<rparr>
         | _ \<Rightarrow> None))"

section \<open>Number formats: internal/helpers/format.go\<close>

definition defaultFormatPatterns :: "(string \<times> string) list" where
  "defaultFormatPatterns =
     [(''NUMBER'', ''#,##0.00''),
      (''CURRENCY'', ''$#,##0.00''),
      (''DATE'', ''yyyy-mm-dd''),
      (''PERCENT'', ''0.00%''),
      (''TIME'', ''hh:mm:ss'')]"

definition GetDefaultFormatPattern :: "string \<Rightarrow> string" where
  "GetDefaultFormatPattern formatType =
     (case map_of defaultFormatPatterns formatType of
        Some pattern \<Rightarrow> pattern
      | None \<Rightarrow> [])"

section \<open>The commands and what they touch outside the process\<close>

text \<open>
  A value of Go's \<^verbatim>\<open>interface{}\<close> as the commands meet it: \<^verbatim>\<open>nil\<close>, a string, or
  what \<^verbatim>\<open>encoding/json\<close> decodes.
\<close>

datatype iface =
    INil
  | IString string
  | IBool bool
  | INumber rat
  | IArray "iface list"
  | IObject "(string \<times> iface) list"

record NumberFormat =
  Type :: string
  Pattern :: string

record GridRange =
  SheetId :: go_int
  StartRowIndex :: go_int
  EndRowIndex :: go_int
  StartColumnIndex :: go_int
  EndColumnIndex :: go_int

record RepeatCellRequest =
  Range :: GridRange
  CellNumberFormat :: NumberFormat
  Fields :: string

text \<open>
  Everything a command does outside the process is an event of its trace, in program order.
  \<^verbatim>\<open>TokenExchange\<close>, \<^verbatim>\<open>SpreadsheetsGet\<close>, \<^verbatim>\<open>ValuesUpdate\<close> and \<^verbatim>\<open>BatchUpdate\<close> are
  the network calls; \<^verbatim>\<open>ListenAndServe\<close> is the start of the goroutine that runs the
  local callback listener and \<^verbatim>\<open>Shutdown\<close> is the call of \<^verbatim>\<open>server.Shutdown\<close>.
\<close>

datatype event =
    ListenAndServe string
  | Shutdown
  | Stdout string
  | Stderr string
  | PrintJSON "(string \<times> string) list"
  | TokenExchange string
  | SpreadsheetsGet string
  | ValuesUpdate string string "iface list list" string
  | BatchUpdate string RepeatCellRequest

text \<open>
  What the three-way \<^verbatim>\<open>select\<close> of \<^verbatim>\<open>requestTokenFromWeb\<close> wakes up on: the browser
  reached the callback handler with some \<^verbatim>\<open>code\<close> query parameter (empty when absent),
  the listener goroutine failed to serve, or the context was cancelled.
\<close>

datatype auth_event =
    Callback string
  | ListenFailed string
  | CtxDone

text \<open>
  The results of the operating system, the libraries and the remote services, which the
  commands only consume. Credentials, configuration and tokens are opaque strings.
\<close>

record world =
  credPath :: string
  tokenPath :: string
  readCredentials :: "string + string"
  configFromJSON :: "string \<Rightarrow> string + string"
  loadTokenResult :: "string + string"
  authCodeURL :: "string \<Rightarrow> string"
  authEvent :: auth_event
  exchange :: "string \<Rightarrow> string \<Rightarrow> string + string"
  saveTokenError :: "string option"
  newServiceError :: "string option"
  jsonUnmarshal :: "string \<Rightarrow> string + iface list list"
  valuesUpdateError :: "string option"
  spreadsheetsGetResult :: "string + (string \<times> go_int) list"
  batchUpdateError :: "string option"
  openFile :: "string \<Rightarrow> string + string"
  csvReadAll :: "string \<Rightarrow> string + string list list"

definition CallbackServerPort :: string where
  "CallbackServerPort = '':8080''"

definition ValueInputModeFormula :: string where
  "ValueInputModeFormula = ''USER_ENTERED''"

definition ValueInputModeRaw :: string where
  "ValueInputModeRaw = ''RAW''"

definition newline :: string where
  "newline = [char_of (10 :: nat)]"

subsection \<open>internal/auth/auth.go\<close>

datatype wait_outcome =
    CodeReceived string
  | ErrReceived string
  | Cancelled

text \<open>
  The callback handler sends on \<^verbatim>\<open>errChan\<close> when the \<^verbatim>\<open>code\<close> parameter is empty and
  on \<^verbatim>\<open>codeChan\<close> otherwise; the listener goroutine sends on \<^verbatim>\<open>errChan\<close> when
  \<^verbatim>\<open>ListenAndServe\<close> fails with anything but \<^verbatim>\<open>ErrServerClosed\<close>.
\<close>

definition selectOutcome :: "auth_event \<Rightarrow> wait_outcome" where
  "selectOutcome ev =
     (case ev of
        Callback code \<Rightarrow>
          if code = [] then ErrReceived ''no authorization code in callback''
          else CodeReceived code
      | ListenFailed err \<Rightarrow> ErrReceived (''failed to start server: '' @ err)
      | CtxDone \<Rightarrow> Cancelled)"

definition requestTokenFromWeb :: "world \<Rightarrow> string \<Rightarrow> event list \<times> (string + string)" where
  "requestTokenFromWeb w config =
     (let started =
            [ListenAndServe CallbackServerPort,
             Stdout (''Go to the following link in your browser:'' @ newline
                     @ authCodeURL w config @ newline @ newline),
             Stdout (''Waiting for authentication...'' @ newline)]
      in case selectOutcome (authEvent w) of
           ErrReceived err \<Rightarrow> (started @ [Shutdown], Inl err)
         | Cancelled \<Rightarrow> (started @ [Shutdown], Inl ''authentication cancelled'')
         | CodeReceived authCode \<Rightarrow>
             (started @ [Shutdown, TokenExchange authCode],
              case exchange w config authCode of
                Inl err \<Rightarrow> Inl (''unable to retrieve token from web: '' @ err)
              | Inr token \<Rightarrow> Inr token))"

definition saveToken :: "world \<Rightarrow> string \<Rightarrow> string \<Rightarrow> event list \<times> string option" where
  "saveToken w path token =
     ([Stderr (''Saving credentials to: '' @ path @ newline)], saveTokenError w)"

definition GetClient :: "world \<Rightarrow> event list \<times> (string + string)" where
  "GetClient w =
     (case readCredentials w of
        Inl err \<Rightarrow>
          ([], Inl (''unable to read credentials file '' @ credPath w @ '': '' @ err @ newline
                    @ ''See README.md for setup instructions''))
      | Inr credentials \<Rightarrow>
          (case configFromJSON w credentials of
             Inl err \<Rightarrow> ([], Inl (''unable to parse credentials: '' @ err))
           | Inr config \<Rightarrow>
               (case loadTokenResult w of
                  Inr token \<Rightarrow> ([], Inr token)
                | Inl _ \<Rightarrow>
                    (case requestTokenFromWeb w config of
                       (tr, Inl err) \<Rightarrow> (tr, Inl err)
                     | (tr, Inr token) \<Rightarrow>
                         (case saveToken w (tokenPath w) token of
                            (tr2, Some err) \<Rightarrow>
                              (tr @ tr2 @ [Stderr (''Warning: unable to save token: '' @ err
                                                   @ newline)],
                               Inr token)
                          | (tr2, None) \<Rightarrow> (tr @ tr2, Inr token))))))"

definition GetSheetsService :: "world \<Rightarrow> event list \<times> (string + string)" where
  "GetSheetsService w =
     (case GetClient w of
        (tr, Inl err) \<Rightarrow> (tr, Inl err)
      | (tr, Inr client) \<Rightarrow>
          (case newServiceError w of
             Some err \<Rightarrow> (tr, Inl (''unable to create Sheets service: '' @ err))
           | None \<Rightarrow> (tr, Inr client)))"

subsection \<open>requestTokenFromWeb and its listener goroutine\<close>

text \<open>
  \<^verbatim>\<open>requestTokenFromWeb\<close> runs \<^verbatim>\<open>server.ListenAndServe\<close> in a goroutine of its own
  (\<^verbatim>\<open>go func() { ... }()\<close>), so the steps of the listener interleave with the steps of the
  main flow. The main flow is at one of these places:
  before the \<^verbatim>\<open>go\<close> statement; blocked in the \<^verbatim>\<open>select\<close>; past the \<^verbatim>\<open>select\<close> with
  its outcome and about to call \<^verbatim>\<open>server.Shutdown\<close>; about to call \<^verbatim>\<open>config.Exchange\<close>;
  returned with its result.
\<close>

datatype main_pc =
    MEntry
  | MSelect
  | MShutdown wait_outcome
  | MExchange string
  | MReturned "string + string"

text \<open>
  The listener goroutine follows \<^verbatim>\<open>net/http\<close>: \<^verbatim>\<open>ListenAndServe\<close> first tests whether the
  server is shutting down, then binds the port with \<^verbatim>\<open>net.Listen\<close>, then enters \<^verbatim>\<open>Serve\<close>,
  which registers the listener with the server unless the server is shutting down by then
  (in which case it closes the listener and returns), and then accepts connections until
  the listener is closed.
\<close>

datatype listener_pc =
    LNotStarted
  | LEntered
  | LPassedTest
  | LBound
  | LServing
  | LDone

record flow =
  mainAt :: main_pc
  listenerAt :: listener_pc
  inShutdown :: bool
  tracked :: bool
  portBound :: bool
  codeChan :: "string option"
  errChan :: "string option"
  ctxDone :: bool

text \<open>
  One step of the whole: the main flow moves (the argument says which ready case the
  \<^verbatim>\<open>select\<close> takes when it is the step), the listener goroutine moves (the argument is the
  error of \<^verbatim>\<open>net.Listen\<close> when that is the step), the browser reaches the callback with
  some \<^verbatim>\<open>code\<close> parameter, or the context is cancelled.
\<close>

datatype select_case = CaseCode | CaseErr | CaseDone

datatype action =
    MainStep select_case
  | ListenerStep "string option"
  | BrowserCallback string
  | CancelContext

definition flowInit :: flow where
  "flowInit =
     \<lparr>mainAt = MEntry, listenerAt = LNotStarted, inShutdown = False, tracked = False,
      portBound = False, codeChan = None, errChan = None, ctxDone = False\<rparr>"

text \<open>
  \<^verbatim>\<open>server.Shutdown\<close> marks the server as shutting down and closes the listeners that are
  registered with it; a listener that is bound but not yet registered is not closed by it.
\<close>

definition serverShutdown :: "flow \<Rightarrow> flow" where
  "serverShutdown s =
     s\<lparr>inShutdown := True,
       portBound := (if tracked s then False else portBound s),
       tracked := False\<rparr>"

definition mainStep :: "world \<Rightarrow> string \<Rightarrow> select_case \<Rightarrow> flow \<Rightarrow> flow option" where
  "mainStep w config c s =
     (case mainAt s of
        MEntry \<Rightarrow> Some (s\<lparr>mainAt := MSelect, listenerAt := LEntered\<rparr>)
      | MSelect \<Rightarrow>
          (case c of
             CaseCode \<Rightarrow>
               (case codeChan s of
                  Some authCode \<Rightarrow>
                    Some (s\<lparr>mainAt := MShutdown (CodeReceived authCode), codeChan := None\<rparr>)
                | None \<Rightarrow> None)
           | CaseErr \<Rightarrow>
               (case errChan s of
                  Some err \<Rightarrow> Some (s\<lparr>mainAt := MShutdown (ErrReceived err), errChan := None\<rparr>)
                | None \<Rightarrow> None)
           | CaseDone \<Rightarrow>
               if ctxDone s then Some (s\<lparr>mainAt := MShutdown Cancelled\<rparr>) else None)
      | MShutdown outcome \<Rightarrow>
          Some ((serverShutdown s)
                  \<lparr>mainAt :=
                     (case outcome of
                        ErrReceived err \<Rightarrow> MReturned (Inl err)
                      | Cancelled \<Rightarrow> MReturned (Inl ''authentication cancelled'')
                      | CodeReceived authCode \<Rightarrow> MExchange authCode)\<rparr>)
      | MExchange authCode \<Rightarrow>
          Some (s\<lparr>mainAt :=
                    MReturned
                      (case exchange w config authCode of
                         Inl err \<Rightarrow> Inl (''unable to retrieve token from web: '' @ err)
                       | Inr token \<Rightarrow> Inr token)\<rparr>)
      | MReturned r \<Rightarrow> None)"

definition listenerStep :: "string option \<Rightarrow> flow \<Rightarrow> flow option" where
  "listenerStep listenResult s =
     (case listenerAt s of
        LNotStarted \<Rightarrow> None
      | LEntered \<Rightarrow>
          Some (s\<lparr>listenerAt := (if inShutdown s then LDone else LPassedTest)\<rparr>)
      | LPassedTest \<Rightarrow>
          (case listenResult of
             Some err \<Rightarrow>
               Some (s\<lparr>listenerAt := LDone,
                       errChan := Some (''failed to start server: '' @ err)\<rparr>)
           | None \<Rightarrow> Some (s\<lparr>listenerAt := LBound, portBound := True\<rparr>))
      | LBound \<Rightarrow>
          if inShutdown s then Some (s\<lparr>listenerAt := LDone, portBound := False\<rparr>)
          else Some (s\<lparr>listenerAt := LServing, tracked := True\<rparr>)
      | LServing \<Rightarrow>
          if inShutdown s then Some (s\<lparr>listenerAt := LDone\<rparr>) else None
      | LDone \<Rightarrow> None)"

text \<open>
  The callback handler runs when the listener is serving. Both channels have room for one
  value; a handler that finds its channel full blocks and is left out.
\<close>

definition callbackStep :: "string \<Rightarrow> flow \<Rightarrow> flow option" where
  "callbackStep code s =
     (if listenerAt s = LServing \<and> \<not> inShutdown s then
        (if code = [] then
           (if errChan s = None
            then Some (s\<lparr>errChan := Some ''no authorization code in callback''\<rparr>)
            else None)
         else
           (if codeChan s = None then Some (s\<lparr>codeChan := Some code\<rparr>) else None))
      else None)"

definition flowStep :: "world \<Rightarrow> string \<Rightarrow> action \<Rightarrow> flow \<Rightarrow> flow option" where
  "flowStep w config a s =
     (case a of
        MainStep c \<Rightarrow> mainStep w config c s
      | ListenerStep listenResult \<Rightarrow> listenerStep listenResult s
      | BrowserCallback code \<Rightarrow> callbackStep code s
      | CancelContext \<Rightarrow> Some (s\<lparr>ctxDone := True\<rparr>))"

text \<open>A schedule is run step by step; a step that is not enabled ends the run with \<open>None\<close>.\<close>

fun runFlow :: "world \<Rightarrow> string \<Rightarrow> action list \<Rightarrow> flow \<Rightarrow> flow option" where
  "runFlow w config [] s = Some s"
| "runFlow w config (a # as) s =
     (case flowStep w config a s of
        None \<Rightarrow> None
      | Some s' \<Rightarrow> runFlow w config as s')"

definition hasReturned :: "flow \<Rightarrow> bool" where
  "hasReturned s = (case mainAt s of MReturned r \<Rightarrow> True | _ \<Rightarrow> False)"

text \<open>
  What holds in every state a schedule can reach: the listener goroutine does not run
  before the \<^verbatim>\<open>go\<close> statement, a registered listener is bound and serving, a bound port belongs to a listener that is bound or serving, after
  \<^verbatim>\<open>Shutdown\<close> nothing is registered, and the main flow is past the \<^verbatim>\<open>select\<close> only with
  the server shutting down or about to be shut down.
\<close>

fun pastShutdown :: "main_pc \<Rightarrow> bool" where
  "pastShutdown (MExchange authCode) = True"
| "pastShutdown (MReturned r) = True"
| "pastShutdown pc = False"

definition flowInv :: "flow \<Rightarrow> bool" where
  "flowInv s \<longleftrightarrow>
     (mainAt s = MEntry \<longrightarrow> listenerAt s = LNotStarted)
     \<and> (listenerAt s = LBound \<longrightarrow> portBound s)
     \<and> (tracked s \<longrightarrow> listenerAt s = LServing \<and> portBound s \<and> \<not> inShutdown s)
     \<and> (portBound s \<longrightarrow> listenerAt s = LBound \<or> (listenerAt s = LServing \<and> tracked s))
     \<and> (listenerAt s = LServing \<and> \<not> inShutdown s \<longrightarrow> tracked s)
     \<and> (pastShutdown (mainAt s) \<longleftrightarrow> inShutdown s)"

text \<open>
  A value in a channel, and a main flow that is past the \<^verbatim>\<open>select\<close> on anything but the
  cancellation, mean that the listener has been serving or has given up: it is not between
  \<^verbatim>\<open>net.Listen\<close> and its registration.
\<close>

fun wokenByListener :: "main_pc \<Rightarrow> bool" where
  "wokenByListener (MShutdown (CodeReceived authCode)) = True"
| "wokenByListener (MShutdown (ErrReceived err)) = True"
| "wokenByListener (MExchange authCode) = True"
| "wokenByListener (MReturned r) = (r \<noteq> Inl ''authentication cancelled'')"
| "wokenByListener pc = False"

definition servedInv :: "flow \<Rightarrow> bool" where
  "servedInv s \<longleftrightarrow>
     (codeChan s \<noteq> None \<or> errChan s \<noteq> None \<or> wokenByListener (mainAt s)
        \<longrightarrow> listenerAt s = LServing \<or> listenerAt s = LDone)"

subsection \<open>internal/cli/data.go\<close>

definition runAddData ::
  "world \<Rightarrow> bool \<Rightarrow> string \<Rightarrow> string \<Rightarrow> string \<Rightarrow> string \<Rightarrow> event list \<times> string option" where
  "runAddData w addDataFormulaMode spreadsheetID sheetName rangeA1 valuesJSON =
     (case GetSheetsService w of
        (tr, Inl err) \<Rightarrow> (tr, Some err)
      | (tr, Inr service) \<Rightarrow>
          (case jsonUnmarshal w valuesJSON of
             Inl err \<Rightarrow> (tr, Some (''invalid JSON values: '' @ err))
           | Inr vals \<Rightarrow>
               (let valueInputOption =
                      (if \<not> addDataFormulaMode then ValueInputModeRaw
                       else ValueInputModeFormula);
                    tr2 = tr @ [ValuesUpdate spreadsheetID (sheetName @ ''!'' @ rangeA1) vals
                                  valueInputOption]
                in case valuesUpdateError w of
                     Some err \<Rightarrow> (tr2, Some (''unable to update cells: '' @ err))
                   | None \<Rightarrow>
                       (tr2 @ [PrintJSON [(''range'', sheetName @ ''!'' @ rangeA1),
                                          (''status'', ''success'')]],
                        None))))"

text \<open>
  \<^verbatim>\<open>main\<close>: an error of the command is printed to standard error and the process exits
  with status 1. The command framework checks the number of arguments before the command
  runs, so the commands take their arguments one by one; what the framework prints by
  itself is left out.
\<close>

definition main :: "event list \<times> string option \<Rightarrow> event list \<times> nat" where
  "main run =
     (case run of
        (tr, Some err) \<Rightarrow> (tr @ [Stderr (err @ newline)], 1)
      | (tr, None) \<Rightarrow> (tr, 0))"

text \<open>\<^verbatim>\<open>strings.Contains\<close>: some suffix of the text starts with the pattern.\<close>

fun Contains :: "string \<Rightarrow> string \<Rightarrow> bool" where
  "Contains [] substr = (substr = [])"
| "Contains (c # cs) substr = (take (length substr) (c # cs) = substr \<or> Contains cs substr)"

definition isNetworkCall :: "event \<Rightarrow> bool" where
  "isNetworkCall e =
     (case e of
        TokenExchange _ \<Rightarrow> True
      | SpreadsheetsGet _ \<Rightarrow> True
      | ValuesUpdate _ _ _ _ \<Rightarrow> True
      | BatchUpdate _ _ \<Rightarrow> True
      | _ \<Rightarrow> False)"

subsection \<open>internal/cli/format.go\<close>

definition GetSheetID :: "world \<Rightarrow> string \<Rightarrow> string \<Rightarrow> event list \<times> (string + go_int)" where
  "GetSheetID w spreadsheetID sheetName =
     ([SpreadsheetsGet spreadsheetID],
      case spreadsheetsGetResult w of
        Inl err \<Rightarrow> Inl (''unable to retrieve spreadsheet: '' @ err)
      | Inr sheets \<Rightarrow>
          (case find (\<lambda>sheet. fst sheet = sheetName) sheets of
             Some sheet \<Rightarrow> Inr (snd sheet)
           | None \<Rightarrow> Inl (''sheet '' @ [CHR 0x27] @ sheetName @ [CHR 0x27] @ '' not found'')))"

definition formatRequest ::
  "go_int \<Rightarrow> go_int \<times> go_int \<times> go_int \<times> go_int \<Rightarrow> string \<Rightarrow> string \<Rightarrow> RepeatCellRequest" where
  "formatRequest sheetID rng formatCellsPattern formatType =
     (case rng of
        (startCol, startRow, endCol, endRow) \<Rightarrow>
          (let pattern =
                 (if formatCellsPattern = [] then GetDefaultFormatPattern formatType
                  else formatCellsPattern);
               numFormat = \<lparr>Type = formatType, Pattern = pattern\<rparr>
           in \<lparr>Range =
                  \<lparr>SheetId = sheetID,
                    StartRowIndex = startRow,
                    EndRowIndex = endRow + 1,
                    StartColumnIndex = startCol,
                    EndColumnIndex = endCol + 1\<rparr>,
                CellNumberFormat = numFormat,
                Fields = ''userEnteredFormat.numberFormat''\<rparr>))"

definition runFormatCells ::
  "world \<Rightarrow> string \<Rightarrow> string \<Rightarrow> string \<Rightarrow> string \<Rightarrow> string \<Rightarrow> event list \<times> string option" where
  "runFormatCells w formatCellsPattern spreadsheetID sheetName rangeA1 formatType =
     (case GetSheetsService w of
        (tr, Inl err) \<Rightarrow> (tr, Some err)
      | (tr, Inr service) \<Rightarrow>
          (case GetSheetID w spreadsheetID sheetName of
             (tr2, Inl err) \<Rightarrow> (tr @ tr2, Some err)
           | (tr2, Inr sheetID) \<Rightarrow>
               (case ParseRange rangeA1 of
                  Inl err \<Rightarrow> (tr @ tr2, Some err)
                | Inr rng \<Rightarrow>
                    (let req = formatRequest sheetID rng formatCellsPattern formatType;
                         tr3 = tr @ tr2 @ [BatchUpdate spreadsheetID req]
                     in case batchUpdateError w of
                          Some err \<Rightarrow> (tr3, Some (''unable to format cells: '' @ err))
                        | None \<Rightarrow>
                            (tr3 @ [PrintJSON [(''format'', formatType),
                                               (''status'', ''success'')]],
                             None)))))"

subsection \<open>internal/cli: readCSV\<close>

text \<open>
  The two loops of \<^verbatim>\<open>readCSV\<close>: \<^verbatim>\<open>row[j] = v\<close> over the fields of a record, into a
  row made of \<^verbatim>\<open>len(record)\<close> nil values, and \<^verbatim>\<open>values[i] = row\<close> over the records,
  into \<^verbatim>\<open>len(records)\<close> nil rows. Every index written is within the length made.
\<close>

fun fillRow :: "string list \<Rightarrow> nat \<Rightarrow> iface list \<Rightarrow> iface list" where
  "fillRow [] j row = row"
| "fillRow (v # vs) j row = fillRow vs (Suc j) (row[j := IString v])"

fun fillValues :: "string list list \<Rightarrow> nat \<Rightarrow> iface list list \<Rightarrow> iface list list" where
  "fillValues [] i vals = vals"
| "fillValues (record # records) i vals =
     fillValues records (Suc i)
       (vals[i := fillRow record 0 (replicate (length record) INil)])"

definition readCSV :: "world \<Rightarrow> string \<Rightarrow> string + iface list list" where
  "readCSV w path =
     (case openFile w path of
        Inl err \<Rightarrow> Inl (''unable to open CSV file: '' @ err)
      | Inr file \<Rightarrow>
          (case csvReadAll w file of
             Inl err \<Rightarrow> Inl (''unable to read CSV: '' @ err)
           | Inr records \<Rightarrow> Inr (fillValues records 0 (replicate (length records) []))))"

section \<open>The specification's vocabulary\<close>

text \<open>
  The definitions of this section follow the words of the specification, not the code: the
  pattern \<^verbatim>\<open>[A-Z]+[0-9]+\<close>, the letter run read as a base-26 number with digits 1..26,
  the digit run read in base 10, and the hexadecimal digits.
\<close>

definition isDigit09 :: "char \<Rightarrow> bool" where
  "isDigit09 c \<longleftrightarrow> byte_of c \<ge> 48 \<and> byte_of c \<le> 57"

definition matchesCellPattern :: "string \<Rightarrow> bool" where
  "matchesCellPattern s \<longleftrightarrow>
     takeWhile isUpperAZ s \<noteq> [] \<and> dropWhile isUpperAZ s \<noteq> []
     \<and> list_all isDigit09 (dropWhile isUpperAZ s)"

definition letterRunValue :: "string \<Rightarrow> int" where
  "letterRunValue ls = foldl (\<lambda>v c. v * 26 + (of_char c - 64)) 0 ls"

definition digitRunValue :: "string \<Rightarrow> int" where
  "digitRunValue ds = foldl (\<lambda>v c. v * 10 + (of_char c - 48)) 0 ds"


definition isHexDigit :: "char \<Rightarrow> bool" where
  "isHexDigit c \<longleftrightarrow>
     (48 \<le> byte_of c \<and> byte_of c \<le> 57) \<or> (65 \<le> byte_of c \<and> byte_of c \<le> 70)
     \<or> (97 \<le> byte_of c \<and> byte_of c \<le> 102)"

text \<open>
  Modelled from the spec: the inverse column encoding, which the repository does not
  contain. The specification names it only as the inverse of the column decoding, with
  0 \<open>\<mapsto>\<close> "A", 25 \<open>\<mapsto>\<close> "Z", 26 \<open>\<mapsto>\<close> "AA": the letters of the one-based column number
  in base 26 with digits 1..26, most significant first.
\<close>

fun lettersOf :: "nat \<Rightarrow> string" where
  "lettersOf n =
     (if n = 0 then []
      else lettersOf ((n - 1) div 26) @ [char_of (65 + (n - 1) mod 26)])"

definition GridToColumn :: "int \<Rightarrow> string" where
  "GridToColumn col = lettersOf (nat (col + 1))"

text \<open>The value of a digit run as the parser accumulates it, on natural numbers.\<close>

fun decval :: "nat \<Rightarrow> string \<Rightarrow> nat" where
  "decval n [] = n"
| "decval n (c # cs) = decval (n * 10 + (of_char c - 48)) cs"

section \<open>Example runs\<close>

text \<open>
  Two states of the world on which the commands are run below: one where the credentials
  are readable and a token is stored, one where no token is stored, so that the commands go
  through the web authorization.
\<close>

definition storedTokenWorld :: world where
  "storedTokenWorld =
     \<lparr>credPath = ''/home/user/.gdrive/credentials.json'',
      tokenPath = ''/home/user/.gdrive/token.json'',
      readCredentials = Inr ''{installed}'',
      configFromJSON = (\<lambda>credentials. Inr ''config''),
      loadTokenResult = Inr ''token'',
      authCodeURL = (\<lambda>config. ''https://accounts.example/auth''),
      authEvent = Callback ''4/code'',
      exchange = (\<lambda>config code. Inr ''fresh-token''),
      saveTokenError = None,
      newServiceError = None,
      jsonUnmarshal =
        (\<lambda>text. if text = ''[[1]]'' then Inr [[INumber 1]]
                else Inl ''invalid character in JSON text''),
      valuesUpdateError = None,
      spreadsheetsGetResult = Inr [(''Sheet1'', 7)],
      batchUpdateError = None,
      openFile =
        (\<lambda>path. if path = ''data.csv'' then Inr ''a,b;c,d''
                else Inl ''no such file or directory''),
      csvReadAll = (\<lambda>file. Inr [[''a'', ''b''], [''c'', ''d'']])\<rparr>"

definition noTokenWorld :: "auth_event \<Rightarrow> world" where
  "noTokenWorld ev =
     storedTokenWorld\<lparr>loadTokenResult := Inl ''open token.json: no such file or directory'',
                       authEvent := ev\<rparr>"

text \<open>The calls to the remote spreadsheet service, among the events.\<close>

definition isSheetsCall :: "event \<Rightarrow> bool" where
  "isSheetsCall e =
     (case e of
        SpreadsheetsGet _ \<Rightarrow> True
      | ValuesUpdate _ _ _ _ \<Rightarrow> True
      | BatchUpdate _ _ \<Rightarrow> True
      | _ \<Rightarrow> False)"

section \<open>Proofs: bytes, digits and the column loop\<close>

lemma unat_byte_of: "unat (byte_of c) = of_char c"
proof -
  have "byte_of c = of_nat (of_char c)" by (simp add: byte_of_def of_nat_of_char)
  then have "unat (byte_of c) = (of_char c :: nat) mod 2 ^ 8" by (simp add: unat_of_nat)
  then show ?thesis by simp
qed

lemma isUpperAZ_nat: "isUpperAZ c \<longleftrightarrow> 65 \<le> (of_char c :: nat) \<and> (of_char c :: nat) \<le> 90"
  by (simp add: isUpperAZ_def word_le_nat_alt unat_byte_of)

lemma isDigit09_nat: "isDigit09 c \<longleftrightarrow> 48 \<le> (of_char c :: nat) \<and> (of_char c :: nat) \<le> 57"
  by (simp add: isDigit09_def word_le_nat_alt unat_byte_of)

lemma int_of_char: "int (of_char c) = of_char c"
  by (rule of_nat_of_char)

lemma letter_step:
  assumes "isUpperAZ c"
  shows "(ucast (byte_of c - 65 + 1) :: go_int) = word_of_int (of_char c - 64)"
proof -
  have u: "unat (byte_of c - 65 + 1) = of_char c - 64"
    using assms unfolding isUpperAZ_def
    by (simp only: unat_byte_of[symmetric]) unat_arith
  have "64 \<le> (of_char c :: nat)" using assms by (simp add: isUpperAZ_nat)
  then have "int (of_char c - 64) = of_char c - 64"
    by (simp add: of_nat_diff int_of_char)
  moreover have "(ucast (byte_of c - 65 + 1) :: go_int) = of_nat (unat (byte_of c - 65 + 1))"
    by simp
  ultimately show ?thesis using u
    by (metis of_int_of_nat_eq)
qed

lemma columnLoop_split:
  "columnLoop s col =
     (foldl (\<lambda>v c. v * 26 + ucast (byte_of c - 65 + 1)) col (takeWhile isUpperAZ s),
      dropWhile isUpperAZ s)"
  by (induction s arbitrary: col) simp_all

lemma column_fold_of_int:
  "list_all isUpperAZ ls \<Longrightarrow>
     foldl (\<lambda>v c. v * 26 + ucast (byte_of c - 65 + 1)) (word_of_int a :: go_int) ls
       = word_of_int (foldl (\<lambda>v c. v * 26 + (of_char c - 64)) a ls)"
proof (induction ls arbitrary: a)
  case Nil
  show ?case by simp
next
  case (Cons c cs)
  then have c: "isUpperAZ c" and cs: "list_all isUpperAZ cs" by simp_all
  have "(word_of_int a :: go_int) * 26 + ucast (byte_of c - 65 + 1)
          = word_of_int (a * 26 + (of_char c - 64))"
    unfolding letter_step [OF c] by simp
  then show ?case using Cons.IH [OF cs, of "a * 26 + (of_char c - 64)"] by simp
qed

lemma list_all_takeWhile: "list_all P (takeWhile P s)"
  by (induction s) simp_all

lemma columnLoop_value:
  "columnLoop s 0 = (word_of_int (letterRunValue (takeWhile isUpperAZ s)), dropWhile isUpperAZ s)"
  using column_fold_of_int [OF list_all_takeWhile, of 0 s]
  by (simp add: columnLoop_split letterRunValue_def)

lemma letter_fold_nonneg:
  "list_all isUpperAZ ls \<Longrightarrow> (0::int) \<le> a \<Longrightarrow> 0 \<le> foldl (\<lambda>v c. v * 26 + (of_char c - 64)) a ls"
proof (induction ls arbitrary: a)
  case Nil then show ?case by simp
next
  case (Cons c cs)
  then have "isUpperAZ c" and cs: "list_all isUpperAZ cs" by simp_all
  then have "64 \<le> (of_char c :: nat)" by (simp add: isUpperAZ_nat)
  then have "(64 :: int) \<le> of_char c" by (simp flip: int_of_char)
  with Cons.prems(2) have "0 \<le> a * 26 + (of_char c - 64)" by simp
  from Cons.IH [OF cs this] show ?case by simp
qed

lemma letterRunValue_nonneg: "list_all isUpperAZ ls \<Longrightarrow> 0 \<le> letterRunValue ls"
  unfolding letterRunValue_def by (rule letter_fold_nonneg) simp_all

lemma sint_go_int:
  "- (2 ^ 63) \<le> x \<Longrightarrow> x < 2 ^ 63 \<Longrightarrow> sint (word_of_int x :: go_int) = x"
  by (simp add: sint_sbintrunc' signed_take_bit_int_eq_self)


lemma decval_mono: "n \<le> decval n cs"
proof (induction cs arbitrary: n)
  case Nil show ?case by simp
next
  case (Cons c cs)
  have "n \<le> n * 10 + (of_char c - 48)" by simp
  also have "\<dots> \<le> decval (n * 10 + (of_char c - 48)) cs" by (rule Cons.IH)
  finally show ?case by simp
qed

lemma digitVal_digit:
  assumes "isDigit09 c"
  shows "digitVal c = Some (byte_of c - 48)" and "unat (byte_of c - 48) = of_char c - 48"
proof -
  show "digitVal c = Some (byte_of c - 48)"
    using assms by (simp add: digitVal_def isDigit09_def)
  show "unat (byte_of c - 48) = of_char c - 48"
    using assms unfolding isDigit09_def
    by (simp only: unat_byte_of[symmetric]) unat_arith
qed




lemma accumDigits_digits:
  "list_all isDigit09 s \<Longrightarrow> n < 2 ^ 64 \<Longrightarrow>
     accumDigits 10 s n = (if decval n s < 2 ^ 64 then Inr (decval n s) else Inl ErrRange)"
proof (induction s arbitrary: n)
  case Nil then show ?case by simp
next
  case (Cons c cs)
  then have c: "isDigit09 c" and cs: "list_all isDigit09 cs" by simp_all
  have lt: "(of_char c :: nat) - 48 < 10" using c by (auto simp: isDigit09_nat)
  let ?m = "n * 10 + (of_char c - 48)"
  show ?case
  proof (cases "?m < 2 ^ 64")
    case True
    then show ?thesis
      using Cons.IH [OF cs True] lt by (simp add: digitVal_digit [OF c])
  next
    case False
    moreover have "?m \<le> decval ?m cs" by (rule decval_mono)
    ultimately have "\<not> decval ?m cs < 2 ^ 64" by linarith
    with False show ?thesis using lt by (simp add: digitVal_digit [OF c])
  qed
qed

lemma decval_digitRun:
  "list_all isDigit09 s \<Longrightarrow>
     int (decval n s) = foldl (\<lambda>v c. v * 10 + (of_char c - 48)) (int n) s"
proof (induction s arbitrary: n)
  case Nil show ?case by simp
next
  case (Cons c cs)
  then have "isDigit09 c" and cs: "list_all isDigit09 cs" by simp_all
  then have c: "48 \<le> (of_char c :: nat)" by (simp add: isDigit09_nat)
  have "int (n * 10 + (of_char c - 48)) = int n * 10 + (of_char c - 48)"
    using c by (simp add: of_nat_diff int_of_char)
  with Cons.IH [OF cs, of "n * 10 + (of_char c - 48)"] show ?case by simp
qed

lemma digitRunValue_decval: "list_all isDigit09 s \<Longrightarrow> digitRunValue s = int (decval 0 s)"
  using decval_digitRun [of s 0] by (simp add: digitRunValue_def)

lemma digitRunValue_nonneg: "list_all isDigit09 s \<Longrightarrow> 0 \<le> digitRunValue s"
  by (simp add: digitRunValue_decval)

lemma ParseUint_digits:
  assumes "s \<noteq> []" "list_all isDigit09 s"
  shows "ParseUint s 10 =
           (if digitRunValue s < 2 ^ 64 then Inr (nat (digitRunValue s)) else Inl ErrRange)"
proof -
  have v: "digitRunValue s = int (decval 0 s)" by (rule digitRunValue_decval [OF assms(2)])
  have "(decval 0 s < 2 ^ 64) = (digitRunValue s < 2 ^ 64)"
    unfolding v by (simp only: of_nat_less_numeral_power_cancel_iff)
  moreover have "nat (digitRunValue s) = decval 0 s" unfolding v by simp
  ultimately show ?thesis
    using assms accumDigits_digits [OF assms(2), of 0] by (simp add: ParseUint_def)
qed


lemma ParseInt_digits:
  assumes "s \<noteq> []" "list_all isDigit09 s"
  shows "ParseInt s 10 =
           (if digitRunValue s < 2 ^ 63 then Inr (digitRunValue s) else Inl ErrRange)"
proof -
  from assms obtain c cs where s: "s = c # cs" and c: "isDigit09 c"
    by (cases s) auto
  have "c \<noteq> CHR ''+''" "c \<noteq> CHR ''-''"
    using c by (auto simp: isDigit09_nat)
  then have "ParseInt s 10 =
      (case ParseUint s 10 of Inl e \<Rightarrow> Inl e
       | Inr un \<Rightarrow> if un \<ge> 2 ^ 63 then Inl ErrRange else Inr (int un))"
    by (simp add: ParseInt_def s split: sum.splits)
  also have "\<dots> = (if digitRunValue s < 2 ^ 63 then Inr (digitRunValue s) else Inl ErrRange)"
    using digitRunValue_nonneg [OF assms(2)]
    by (simp add: ParseUint_digits [OF assms]) arith
  finally show ?thesis .
qed

lemma Atoi_digits:
  assumes "s \<noteq> []" "list_all isDigit09 s"
  shows "Atoi s =
           (if digitRunValue s < 2 ^ 63 then Inr (word_of_int (digitRunValue s)) else Inl ErrRange)"
  by (simp add: Atoi_def ParseInt_digits [OF assms])





lemma A1ToGrid_unfold:
  "A1ToGrid cell =
     (if dropWhile isUpperAZ cell \<noteq> [] then
        (case Atoi (dropWhile isUpperAZ cell) of
           Inl e \<Rightarrow> Inl (''invalid cell reference: '' @ cell)
         | Inr rowNum \<Rightarrow>
             Inr (word_of_int (letterRunValue (takeWhile isUpperAZ cell)) - 1, rowNum - 1))
      else Inr (word_of_int (letterRunValue (takeWhile isUpperAZ cell)) - 1, 0 - 1))"
  by (simp add: A1ToGrid_def columnLoop_value)

lemma sint_column:
  assumes "list_all isUpperAZ ls" "letterRunValue ls \<le> 2 ^ 63"
  shows "sint (word_of_int (letterRunValue ls) - 1 :: go_int) = letterRunValue ls - 1"
proof -
  have "0 \<le> letterRunValue ls" by (rule letterRunValue_nonneg [OF assms(1)])
  then have "sint (word_of_int (letterRunValue ls - 1) :: go_int) = letterRunValue ls - 1"
    using assms(2) by (intro sint_go_int) simp_all
  then show ?thesis by simp
qed

lemma sint_row:
  assumes "list_all isDigit09 ds" "digitRunValue ds < 2 ^ 63"
  shows "sint (word_of_int (digitRunValue ds) - 1 :: go_int) = digitRunValue ds - 1"
proof -
  have "0 \<le> digitRunValue ds" by (rule digitRunValue_nonneg [OF assms(1)])
  then have "sint (word_of_int (digitRunValue ds - 1) :: go_int) = digitRunValue ds - 1"
    using assms(2) by (intro sint_go_int) simp_all
  then show ?thesis by simp
qed

section \<open>A1ToGrid on cell references\<close>

lemmas eval_defs =
  A1ToGrid_def Atoi_def ParseInt_def ParseUint_def digitVal_def lower_def isUpperAZ_def
  byte_of_def isDigit09_def matchesCellPattern_def

text \<open>
  Claim C1, as the code has it. On every input that matches \<^verbatim>\<open>[A-Z]+[0-9]+\<close>,
  \<^verbatim>\<open>A1ToGrid\<close> succeeds when the value of the digit run is below \<open>2^63\<close>; the row is
  then that value minus 1, and the column is the base-26 value (digits 1..26) of the letter
  run minus 1 as long as that value is at most \<open>2^63\<close>. When the value of the digit run is
  \<open>2^63\<close> or more, \<^verbatim>\<open>strconv.Atoi\<close> reports a range error and \<^verbatim>\<open>A1ToGrid\<close> fails. The three
  examples of the specification hold.
\<close>

theorem A1ToGrid_matching:
  "(matchesCellPattern cell \<longrightarrow>
      (digitRunValue (dropWhile isUpperAZ cell) < 2 ^ 63 \<longrightarrow>
         (\<exists>col row. A1ToGrid cell = Inr (col, row)
            \<and> sint row = digitRunValue (dropWhile isUpperAZ cell) - 1
            \<and> (letterRunValue (takeWhile isUpperAZ cell) \<le> 2 ^ 63 \<longrightarrow>
                 sint col = letterRunValue (takeWhile isUpperAZ cell) - 1)))
      \<and> (2 ^ 63 \<le> digitRunValue (dropWhile isUpperAZ cell) \<longrightarrow>
           A1ToGrid cell = Inl (''invalid cell reference: '' @ cell)))
   \<and> A1ToGrid ''B5'' = Inr (1, 4)
   \<and> A1ToGrid ''A1'' = Inr (0, 0)
   \<and> A1ToGrid ''AA10'' = Inr (26, 9)"
proof -
  let ?ls = "takeWhile isUpperAZ cell" and ?ds = "dropWhile isUpperAZ cell"
  have general: "(digitRunValue ?ds < 2 ^ 63 \<longrightarrow>
         (\<exists>col row. A1ToGrid cell = Inr (col, row)
            \<and> sint row = digitRunValue ?ds - 1
            \<and> (letterRunValue ?ls \<le> 2 ^ 63 \<longrightarrow> sint col = letterRunValue ?ls - 1)))
      \<and> (2 ^ 63 \<le> digitRunValue ?ds \<longrightarrow>
           A1ToGrid cell = Inl (''invalid cell reference: '' @ cell))"
    if m: "matchesCellPattern cell"
  proof -
    from m have ne: "?ds \<noteq> []" and dig: "list_all isDigit09 ?ds"
      by (simp_all add: matchesCellPattern_def)
    have ls: "list_all isUpperAZ ?ls" by (rule list_all_takeWhile)
    show ?thesis
    proof (cases "digitRunValue ?ds < 2 ^ 63")
      case True
      then have "A1ToGrid cell =
          Inr (word_of_int (letterRunValue ?ls) - 1, word_of_int (digitRunValue ?ds) - 1)"
        using ne by (simp add: A1ToGrid_unfold Atoi_digits [OF ne dig])
      then show ?thesis
        using True sint_row [OF dig True] sint_column [OF ls] by simp
    next
      case False
      then have "A1ToGrid cell = Inl (''invalid cell reference: '' @ cell)"
        using ne by (simp add: A1ToGrid_unfold Atoi_digits [OF ne dig])
      with False show ?thesis by simp
    qed
  qed
  have "A1ToGrid ''B5'' = Inr (1, 4)" "A1ToGrid ''A1'' = Inr (0, 0)"
       "A1ToGrid ''AA10'' = Inr (26, 9)"
    by (simp_all add: eval_defs)
  with general show ?thesis by blast
qed

text \<open>The theorem at the reference \<^verbatim>\<open>C7\<close>.\<close>

theorem A1ToGrid_matching_witness:
  "matchesCellPattern ''C7''
   \<and> digitRunValue (dropWhile isUpperAZ ''C7'') < 2 ^ 63
   \<and> letterRunValue (takeWhile isUpperAZ ''C7'') \<le> 2 ^ 63
   \<and> A1ToGrid ''C7'' = Inr (2, 6)
   \<and> sint (2 :: go_int) = letterRunValue ''C'' - 1 \<and> sint (6 :: go_int) = digitRunValue ''7'' - 1"
  using A1ToGrid_matching [of "''C7''"]
  by (simp add: eval_defs letterRunValue_def digitRunValue_def)

text \<open>
  Claim C1 as stated fails: a row number of \<open>2^63\<close> matches the pattern and is refused.
\<close>

theorem A1ToGrid_row_overflow_counterexample:
  "matchesCellPattern ''A9223372036854775808''
   \<and> A1ToGrid ''A9223372036854775808'' = Inl ''invalid cell reference: A9223372036854775808''"
  by (simp add: eval_defs)





text \<open>
  A remainder that starts with a sign is handed to \<^verbatim>\<open>strconv.Atoi\<close> like any other, and
  \<^verbatim>\<open>Atoi\<close> reads the sign: the reference \<^verbatim>\<open>A-5\<close> gives the row \<open>-6\<close>.
\<close>

lemma A1ToGrid_signed_row:
  "A1ToGrid ''A-5'' = Inr (0, - 6)" and "A1ToGrid ''A+5'' = Inr (0, 4)"
  by (simp_all add: eval_defs)

section \<open>The column codec round trip\<close>

declare lettersOf.simps [simp del]

lemma lettersOf_0: "lettersOf 0 = []"
  by (simp add: lettersOf.simps)

lemma lettersOf_step:
  assumes "isUpperAZ c"
  shows "lettersOf (n * 26 + (of_char c - 64)) = lettersOf n @ [c]"
proof -
  let ?k = "(of_char c :: nat) - 64"
  let ?m = "n * 26 + ?k"
  from assms have k: "1 \<le> ?k" "?k \<le> 26" by (auto simp: isUpperAZ_nat)
  then have pos: "?m \<noteq> 0" by simp
  from k obtain j where j: "?k = Suc j" "j < 26" by (cases ?k) auto
  then have m1: "?m - 1 = j + n * 26" by simp
  have d: "(?m - 1) div 26 = n" by (simp only: m1) (use j in simp)
  have "(?m - 1) mod 26 = j" by (simp only: m1) (use j in simp)
  moreover have "65 + j = (of_char c :: nat)" using j(1) by simp
  ultimately have "65 + (?m - 1) mod 26 = (of_char c :: nat)" by simp
  then have ch: "char_of (65 + (?m - 1) mod 26) = c" by (simp only: char_of_char)
  show ?thesis
    by (subst lettersOf.simps) (simp only: pos d ch if_False)
qed

lemma lettersOf_fold:
  "list_all isUpperAZ ls \<Longrightarrow> 0 \<le> a \<Longrightarrow>
     lettersOf (nat (foldl (\<lambda>v c. v * 26 + (of_char c - 64)) a ls)) = lettersOf (nat a) @ ls"
proof (induction ls arbitrary: a)
  case Nil show ?case by simp
next
  case (Cons c cs)
  then have c: "isUpperAZ c" and cs: "list_all isUpperAZ cs" by simp_all
  from c have c64: "64 \<le> (of_char c :: nat)" by (simp add: isUpperAZ_nat)
  then have ci: "(of_char c :: int) - 64 = int (of_char c - 64)"
    by (simp add: of_nat_diff int_of_char)
  let ?a' = "a * 26 + (of_char c - 64)"
  have nn: "0 \<le> ?a'" using Cons.prems(2) unfolding ci by simp
  have "nat ?a' = nat a * 26 + (of_char c - 64)"
    using Cons.prems(2) unfolding ci by (simp add: nat_add_distrib nat_mult_distrib)
  then have "lettersOf (nat ?a') = lettersOf (nat a) @ [c]"
    by (simp add: lettersOf_step [OF c])
  with Cons.IH [OF cs nn] show ?case by simp
qed

lemma GridToColumn_letterRunValue:
  "list_all isUpperAZ ls \<Longrightarrow> GridToColumn (letterRunValue ls - 1) = ls"
  using lettersOf_fold [of ls 0]
  by (simp add: GridToColumn_def letterRunValue_def lettersOf_0)

lemma letter_fold_bound:
  "list_all isUpperAZ ls \<Longrightarrow> (0::int) \<le> a \<Longrightarrow>
     foldl (\<lambda>v c. v * 26 + (of_char c - 64)) a ls < (a + 1) * 27 ^ length ls"
proof (induction ls arbitrary: a)
  case Nil then show ?case by simp
next
  case (Cons c cs)
  then have c: "isUpperAZ c" and cs: "list_all isUpperAZ cs" by simp_all
  from c have "64 \<le> (of_char c :: nat)" "(of_char c :: nat) \<le> 90"
    by (simp_all add: isUpperAZ_nat)
  then have ci: "(64 :: int) \<le> of_char c" "(of_char c :: int) \<le> 90"
    by (simp_all flip: int_of_char)
  let ?a' = "a * 26 + (of_char c - 64)"
  have nn: "0 \<le> ?a'" using Cons.prems(2) ci by simp
  have "?a' + 1 \<le> (a + 1) * 27" using Cons.prems(2) ci by simp
  then have le: "(?a' + 1) * 27 ^ length cs \<le> ((a + 1) * 27) * 27 ^ length cs"
    by (rule mult_right_mono) simp
  have "foldl (\<lambda>v c. v * 26 + (of_char c - 64)) ?a' cs < (?a' + 1) * 27 ^ length cs"
    by (rule Cons.IH [OF cs nn])
  also note le
  also have "((a + 1) * 27) * 27 ^ length cs = (a + 1) * 27 ^ length (c # cs)" by simp
  finally show ?case by simp
qed

lemma letterRunValue_bound:
  assumes "list_all isUpperAZ ls" "length ls \<le> 13"
  shows "letterRunValue ls \<le> 2 ^ 63"
proof -
  have "letterRunValue ls < 27 ^ length ls"
    using letter_fold_bound [OF assms(1), of 0] by (simp add: letterRunValue_def)
  also have "(27 :: int) ^ length ls \<le> 27 ^ 13"
    using assms(2) by (intro power_increasing) simp_all
  also have "(27 :: int) ^ 13 \<le> 2 ^ 63" by simp
  finally show ?thesis by simp
qed

lemma dropWhile_all: "list_all P s \<Longrightarrow> dropWhile P s = []"
  by (induction s) simp_all

lemma takeWhile_all: "list_all P s \<Longrightarrow> takeWhile P s = s"
  by (induction s) simp_all

text \<open>
  Claim C6. For every string of one to three uppercase letters, \<^verbatim>\<open>A1ToGrid\<close> succeeds, its
  column is the base-26 value of the letters minus 1, and the inverse column encoding of that
  column gives the letters back; "A" decodes to 0 and encodes back to "A", "Z" to 25 and
  back, "AA" to 26 and back.
\<close>

theorem column_roundtrip:
  "(ls \<noteq> [] \<and> length ls \<le> 3 \<and> list_all isUpperAZ ls \<longrightarrow>
      (\<exists>col row. A1ToGrid ls = Inr (col, row)
         \<and> sint col = letterRunValue ls - 1
         \<and> GridToColumn (sint col) = ls))
   \<and> A1ToGrid ''A'' = Inr (0, - 1) \<and> GridToColumn 0 = ''A''
   \<and> A1ToGrid ''Z'' = Inr (25, - 1) \<and> GridToColumn 25 = ''Z''
   \<and> A1ToGrid ''AA'' = Inr (26, - 1) \<and> GridToColumn 26 = ''AA''"
proof -
  have general: "\<exists>col row. A1ToGrid ls = Inr (col, row)
         \<and> sint col = letterRunValue ls - 1 \<and> GridToColumn (sint col) = ls"
    if up: "list_all isUpperAZ ls" and len: "length ls \<le> 3"
  proof -
    have "A1ToGrid ls = Inr (word_of_int (letterRunValue ls) - 1, 0 - 1)"
      by (simp add: A1ToGrid_unfold dropWhile_all [OF up] takeWhile_all [OF up])
    moreover have "letterRunValue ls \<le> 2 ^ 63"
      using up len by (intro letterRunValue_bound) simp_all
    then have "sint (word_of_int (letterRunValue ls) - 1 :: go_int) = letterRunValue ls - 1"
      by (rule sint_column [OF up])
    ultimately show ?thesis
      using GridToColumn_letterRunValue [OF up] by simp
  qed
  have up: "list_all isUpperAZ ''A''" "list_all isUpperAZ ''Z''" "list_all isUpperAZ ''AA''"
    by (simp_all add: isUpperAZ_def byte_of_def)
  have "GridToColumn 0 = ''A''" "GridToColumn 25 = ''Z''" "GridToColumn 26 = ''AA''"
    using up [THEN GridToColumn_letterRunValue] by (simp_all add: letterRunValue_def)
  moreover have "A1ToGrid ''A'' = Inr (0, - 1)" "A1ToGrid ''Z'' = Inr (25, - 1)"
    "A1ToGrid ''AA'' = Inr (26, - 1)"
    by (simp_all add: eval_defs)
  ultimately show ?thesis using general by blast
qed

text \<open>The theorem at the letters \<^verbatim>\<open>ABC\<close>, column 730.\<close>

theorem column_roundtrip_witness:
  "''ABC'' \<noteq> [] \<and> length ''ABC'' \<le> 3 \<and> list_all isUpperAZ ''ABC''
   \<and> A1ToGrid ''ABC'' = Inr (730, - 1) \<and> GridToColumn 730 = ''ABC''"
proof -
  have a: "A1ToGrid ''ABC'' = Inr (730, - 1)" by (simp add: eval_defs)
  have h: "''ABC'' \<noteq> [] \<and> length ''ABC'' \<le> 3 \<and> list_all isUpperAZ ''ABC''"
    by (simp add: isUpperAZ_def byte_of_def)
  from column_roundtrip [of "''ABC''"] h a show ?thesis by auto
qed


section \<open>ParseRange\<close>

lemma Split_no_sep: "sep \<notin> set s \<Longrightarrow> Split s sep = [s]"
  by (induction s) auto

lemma Split_not_Nil: "Split s sep \<noteq> []"
  by (induction s) (auto split: list.splits)

lemma Split_hd: "hd (Split s sep) = takeWhile (\<lambda>c. c \<noteq> sep) s"
  using Split_not_Nil [of _ sep] by (induction s) (auto split: list.splits)

lemma Split_first_sep:
  "sep \<notin> set a \<Longrightarrow> Split (a @ sep # b) sep = a # Split b sep"
  by (induction a) auto

lemma Split_two:
  assumes "sep \<notin> set a"
  shows "\<exists>rest. Split (a @ sep # b) sep = a # takeWhile (\<lambda>c. c \<noteq> sep) b # rest"
proof -
  obtain p ps where ps: "Split b sep = p # ps"
    using Split_not_Nil [of b sep] by (cases "Split b sep") auto
  with Split_hd [of b sep] have "p = takeWhile (\<lambda>c. c \<noteq> sep) b" by simp
  with ps Split_first_sep [OF assms, of b] show ?thesis by simp
qed

lemma ParseRange_single:
  assumes "CHR '':'' \<notin> set s"
  shows "ParseRange s =
           (case A1ToGrid s of Inl err \<Rightarrow> Inl err | Inr (c, r) \<Rightarrow> Inr (c, r, c, r))"
  by (simp add: ParseRange_def Split_no_sep [OF assms] split: sum.splits)

lemma ParseRange_pair:
  assumes "CHR '':'' \<notin> set a"
  shows "ParseRange (a @ CHR '':'' # b) =
           (case A1ToGrid a of
              Inl err \<Rightarrow> Inl err
            | Inr (c1, r1) \<Rightarrow>
                (case A1ToGrid (takeWhile (\<lambda>c. c \<noteq> CHR '':'') b) of
                   Inl err \<Rightarrow> Inl err
                 | Inr (c2, r2) \<Rightarrow> Inr (c1, r1, c2, r2)))"
proof -
  from Split_two [OF assms, of b] obtain rest where
    "Split (a @ CHR '':'' # b) CHR '':'' = a # takeWhile (\<lambda>c. c \<noteq> CHR '':'') b # rest" ..
  then show ?thesis
    by (simp add: ParseRange_def split: sum.splits)
qed

lemma takeWhile_no_sep: "sep \<notin> set b \<Longrightarrow> takeWhile (\<lambda>c. c \<noteq> sep) b = b"
  by (induction b) auto

text \<open>
  Claim C3, as the code has it. A range without ":" is parsed as one cell by
  \<^verbatim>\<open>A1ToGrid\<close>, whose error is returned as it is, and gives a range whose end is its
  start. A range with exactly one ":" has its two halves parsed by \<^verbatim>\<open>A1ToGrid\<close>, each on
  its own, and an error of either is an error of \<^verbatim>\<open>ParseRange\<close>. A range with more than
  one ":" is treated the same way on its first two pieces, the text before the first ":"
  and the text between the first and the second; what follows the second ":" is not read.
  \<^verbatim>\<open>ParseRange("A1:B10")\<close> is ((0,0),(1,9)) and \<^verbatim>\<open>ParseRange("C3")\<close> is ((2,2),(2,2)).
\<close>

theorem ParseRange_halves:
  "(CHR '':'' \<notin> set s \<longrightarrow>
      ParseRange s =
        (case A1ToGrid s of Inl err \<Rightarrow> Inl err | Inr (c, r) \<Rightarrow> Inr (c, r, c, r)))
   \<and> (CHR '':'' \<notin> set a \<and> CHR '':'' \<notin> set b \<longrightarrow>
        ParseRange (a @ CHR '':'' # b) =
          (case A1ToGrid a of
             Inl err \<Rightarrow> Inl err
           | Inr (c1, r1) \<Rightarrow>
               (case A1ToGrid b of
                  Inl err \<Rightarrow> Inl err
                | Inr (c2, r2) \<Rightarrow> Inr (c1, r1, c2, r2)))
        \<and> (isl (A1ToGrid a) \<or> isl (A1ToGrid b) \<longrightarrow> isl (ParseRange (a @ CHR '':'' # b))))
   \<and> (CHR '':'' \<notin> set a \<longrightarrow>
        ParseRange (a @ CHR '':'' # b) =
          (case A1ToGrid a of
             Inl err \<Rightarrow> Inl err
           | Inr (c1, r1) \<Rightarrow>
               (case A1ToGrid (takeWhile (\<lambda>c. c \<noteq> CHR '':'') b) of
                  Inl err \<Rightarrow> Inl err
                | Inr (c2, r2) \<Rightarrow> Inr (c1, r1, c2, r2)))
        \<and> (isl (A1ToGrid a) \<or> isl (A1ToGrid (takeWhile (\<lambda>c. c \<noteq> CHR '':'') b)) \<longrightarrow>
             isl (ParseRange (a @ CHR '':'' # b))))
   \<and> ParseRange ''A1:B10'' = Inr (0, 0, 1, 9)
   \<and> ParseRange ''C3'' = Inr (2, 2, 2, 2)"
proof -
  have one: "CHR '':'' \<notin> set s \<longrightarrow>
      ParseRange s =
        (case A1ToGrid s of Inl err \<Rightarrow> Inl err | Inr (c, r) \<Rightarrow> Inr (c, r, c, r))"
    by (rule impI) (rule ParseRange_single)
  have pieces: "ParseRange (a @ CHR '':'' # b) =
          (case A1ToGrid a of
             Inl err \<Rightarrow> Inl err
           | Inr (c1, r1) \<Rightarrow>
               (case A1ToGrid p of
                  Inl err \<Rightarrow> Inl err
                | Inr (c2, r2) \<Rightarrow> Inr (c1, r1, c2, r2)))
        \<and> (isl (A1ToGrid a) \<or> isl (A1ToGrid p) \<longrightarrow> isl (ParseRange (a @ CHR '':'' # b)))"
    if a: "CHR '':'' \<notin> set a" and p: "p = takeWhile (\<lambda>c. c \<noteq> CHR '':'') b" for p
  proof -
    have eq: "ParseRange (a @ CHR '':'' # b) =
          (case A1ToGrid a of
             Inl err \<Rightarrow> Inl err
           | Inr (c1, r1) \<Rightarrow>
               (case A1ToGrid p of
                  Inl err \<Rightarrow> Inl err
                | Inr (c2, r2) \<Rightarrow> Inr (c1, r1, c2, r2)))"
      unfolding p by (rule ParseRange_pair [OF a])
    have "isl (ParseRange (a @ CHR '':'' # b))" if "isl (A1ToGrid a) \<or> isl (A1ToGrid p)"
      using that unfolding eq by (cases "A1ToGrid a"; cases "A1ToGrid p") auto
    with eq show ?thesis by (intro conjI impI)
  qed
  have two: "CHR '':'' \<notin> set a \<and> CHR '':'' \<notin> set b \<longrightarrow>
        ParseRange (a @ CHR '':'' # b) =
          (case A1ToGrid a of
             Inl err \<Rightarrow> Inl err
           | Inr (c1, r1) \<Rightarrow>
               (case A1ToGrid b of
                  Inl err \<Rightarrow> Inl err
                | Inr (c2, r2) \<Rightarrow> Inr (c1, r1, c2, r2)))
        \<and> (isl (A1ToGrid a) \<or> isl (A1ToGrid b) \<longrightarrow> isl (ParseRange (a @ CHR '':'' # b)))"
  proof (intro impI, elim conjE)
    assume a: "CHR '':'' \<notin> set a" and b: "CHR '':'' \<notin> set b"
    show "ParseRange (a @ CHR '':'' # b) =
          (case A1ToGrid a of
             Inl err \<Rightarrow> Inl err
           | Inr (c1, r1) \<Rightarrow>
               (case A1ToGrid b of
                  Inl err \<Rightarrow> Inl err
                | Inr (c2, r2) \<Rightarrow> Inr (c1, r1, c2, r2)))
        \<and> (isl (A1ToGrid a) \<or> isl (A1ToGrid b) \<longrightarrow> isl (ParseRange (a @ CHR '':'' # b)))"
      by (rule pieces [OF a]) (rule takeWhile_no_sep [OF b, symmetric])
  qed
  have more: "CHR '':'' \<notin> set a \<longrightarrow>
        ParseRange (a @ CHR '':'' # b) =
          (case A1ToGrid a of
             Inl err \<Rightarrow> Inl err
           | Inr (c1, r1) \<Rightarrow>
               (case A1ToGrid (takeWhile (\<lambda>c. c \<noteq> CHR '':'') b) of
                  Inl err \<Rightarrow> Inl err
                | Inr (c2, r2) \<Rightarrow> Inr (c1, r1, c2, r2)))
        \<and> (isl (A1ToGrid a) \<or> isl (A1ToGrid (takeWhile (\<lambda>c. c \<noteq> CHR '':'') b)) \<longrightarrow>
             isl (ParseRange (a @ CHR '':'' # b)))"
  proof
    assume a: "CHR '':'' \<notin> set a"
    show "ParseRange (a @ CHR '':'' # b) =
          (case A1ToGrid a of
             Inl err \<Rightarrow> Inl err
           | Inr (c1, r1) \<Rightarrow>
               (case A1ToGrid (takeWhile (\<lambda>c. c \<noteq> CHR '':'') b) of
                  Inl err \<Rightarrow> Inl err
                | Inr (c2, r2) \<Rightarrow> Inr (c1, r1, c2, r2)))
        \<and> (isl (A1ToGrid a) \<or> isl (A1ToGrid (takeWhile (\<lambda>c. c \<noteq> CHR '':'') b)) \<longrightarrow>
             isl (ParseRange (a @ CHR '':'' # b)))"
      by (rule pieces [OF a]) (rule refl)
  qed
  have ex1: "ParseRange ''A1:B10'' = Inr (0, 0, 1, 9)"
    by (simp add: ParseRange_def eval_defs)
  have ex2: "ParseRange ''C3'' = Inr (2, 2, 2, 2)"
    by (simp add: ParseRange_def eval_defs)
  show ?thesis by (intro conjI one two more ex1 ex2)
qed

text \<open>
  The theorem at \<^verbatim>\<open>D4\<close>, at \<^verbatim>\<open>B2:C5\<close>, at \<^verbatim>\<open>B2:5C\<close>, whose second half fails, and at
  \<^verbatim>\<open>B2:C5:D9\<close>, whose third piece is not read.
\<close>

theorem ParseRange_halves_witness:
  "CHR '':'' \<notin> set ''D4'' \<and> ParseRange ''D4'' = Inr (3, 3, 3, 3)
   \<and> CHR '':'' \<notin> set ''B2'' \<and> CHR '':'' \<notin> set ''C5''
   \<and> ParseRange (''B2'' @ CHR '':'' # ''C5'') = Inr (1, 1, 2, 4)
   \<and> CHR '':'' \<notin> set ''5C'' \<and> isl (A1ToGrid ''5C'')
   \<and> isl (ParseRange (''B2'' @ CHR '':'' # ''5C''))
   \<and> ParseRange (''B2'' @ CHR '':'' # ''C5:D9'') = Inr (1, 1, 2, 4)"
proof -
  have a: "A1ToGrid ''D4'' = Inr (3, 3)" "A1ToGrid ''B2'' = Inr (1, 1)"
    "A1ToGrid ''C5'' = Inr (2, 4)" "A1ToGrid ''5C'' = Inl ''invalid cell reference: 5C''"
    by (simp_all add: eval_defs)
  have h: "CHR '':'' \<notin> set ''D4''" "CHR '':'' \<notin> set ''B2''" "CHR '':'' \<notin> set ''C5''"
    "CHR '':'' \<notin> set ''5C''"
    by simp_all
  from ParseRange_halves [of "''D4''" "''B2''" "''C5''"] h a
  have "ParseRange ''D4'' = Inr (3, 3, 3, 3)"
    and "ParseRange (''B2'' @ CHR '':'' # ''C5'') = Inr (1, 1, 2, 4)"
    by simp_all
  moreover from ParseRange_halves [of "''D4''" "''B2''" "''5C''"] h a
  have "isl (ParseRange (''B2'' @ CHR '':'' # ''5C''))" by simp
  moreover from ParseRange_halves [of "''D4''" "''B2''" "''C5:D9''"] h a
  have "ParseRange (''B2'' @ CHR '':'' # ''C5:D9'') = Inr (1, 1, 2, 4)" by simp
  ultimately show ?thesis using h a by simp
qed

text \<open>
  Claim C3 as stated fails on a range with two separators: in \<^verbatim>\<open>A1:B2:5C\<close> neither the
  text after the first ":" nor the text after the second is a cell reference, and
  \<^verbatim>\<open>ParseRange\<close> returns the range from A1 to B2.
\<close>

theorem ParseRange_third_piece_counterexample:
  "ParseRange ''A1:B2:5C'' = Inr (0, 0, 1, 1)
   \<and> A1ToGrid ''B2:5C'' = Inl ''invalid cell reference: B2:5C''
   \<and> A1ToGrid ''5C'' = Inl ''invalid cell reference: 5C''"
  by (simp add: ParseRange_def eval_defs)

section \<open>ParseColor and the default format patterns\<close>

lemmas color_defs =
  ParseColor_def TrimPrefix_def HasPrefix_def byteSlice_def HexColorLength_def RGBMaxValue_def
  ParseInt_def ParseUint_def digitVal_def lower_def byte_of_def isHexDigit_def

text \<open>
  Claim C4 fails on the code, which parses each channel with the signed
  \<^verbatim>\<open>strconv.ParseInt\<close>: a sign is accepted as the first character of a channel. The input
  \<^verbatim>\<open>+F0000\<close> has six characters, the first of which is not a hexadecimal digit, and
  \<^verbatim>\<open>ParseColor\<close> returns a color for it.
\<close>

theorem ParseColor_accepts_plus_sign:
  "length (TrimPrefix ''+F0000'' ''#'') = 6
   \<and> \<not> list_all isHexDigit (TrimPrefix ''+F0000'' ''#'')
   \<and> ParseColor ''+F0000'' = Some \<lparr>Red = 15 / 255, Green = 0, Blue = 0\<rparr>"
  by (simp add: color_defs)

text \<open>
  Claim C5 fails on the code for the same reason: on \<^verbatim>\<open>-F0000\<close> the red channel is
  \<open>-15 / 255\<close>, below 0, and \<^verbatim>\<open>-F\<close> is not a byte written in base 16.
\<close>

theorem ParseColor_negative_channel:
  "ParseColor ''-F0000'' = Some \<lparr>Red = - 15 / 255, Green = 0, Blue = 0\<rparr>
   \<and> Red (the (ParseColor ''-F0000'')) < 0
   \<and> ParseColor ''#FF0000'' = Some \<lparr>Red = 1, Green = 0, Blue = 0\<rparr>"
  by (simp add: color_defs)

lemma defaultFormatPatterns_keys:
  "map_of defaultFormatPatterns formatType = None \<longleftrightarrow>
     formatType \<notin> {''NUMBER'', ''CURRENCY'', ''DATE'', ''PERCENT'', ''TIME''}"
  by (simp add: defaultFormatPatterns_def)

text \<open>
  Claim C10. For every format type other than NUMBER, CURRENCY, DATE, PERCENT and TIME,
  \<^verbatim>\<open>GetDefaultFormatPattern\<close> returns the empty string, and with no custom pattern the
  request that \<^verbatim>\<open>runFormatCells\<close> builds carries that type with an empty pattern; once the
  service, the sheet and the range are there, the request is sent and no error comes from
  the unknown type. TEXT, which the command advertises, is such a type.
\<close>

theorem GetDefaultFormatPattern_unknown:
  "(formatType \<notin> {''NUMBER'', ''CURRENCY'', ''DATE'', ''PERCENT'', ''TIME''} \<longrightarrow>
      GetDefaultFormatPattern formatType = []
      \<and> CellNumberFormat (formatRequest sheetID rng [] formatType)
           = \<lparr>Type = formatType, Pattern = []\<rparr>
      \<and> (\<forall>tr service tr2.
            GetSheetsService w = (tr, Inr service)
            \<and> GetSheetID w spreadsheetID sheetName = (tr2, Inr sheetID)
            \<and> ParseRange rangeA1 = Inr rng
            \<and> batchUpdateError w = None \<longrightarrow>
              runFormatCells w [] spreadsheetID sheetName rangeA1 formatType
                = (tr @ tr2 @ [BatchUpdate spreadsheetID (formatRequest sheetID rng [] formatType),
                               PrintJSON [(''format'', formatType), (''status'', ''success'')]],
                   None)))
   \<and> GetDefaultFormatPattern ''TEXT'' = []"
proof -
  have p: "GetDefaultFormatPattern formatType = []"
    if "formatType \<notin> {''NUMBER'', ''CURRENCY'', ''DATE'', ''PERCENT'', ''TIME''}"
    using that defaultFormatPatterns_keys [of formatType]
    by (simp add: GetDefaultFormatPattern_def)
  have r: "CellNumberFormat (formatRequest sheetID rng [] formatType)
           = \<lparr>Type = formatType, Pattern = GetDefaultFormatPattern formatType\<rparr>"
    by (cases rng) (simp add: formatRequest_def)
  have run: "runFormatCells w [] spreadsheetID sheetName rangeA1 formatType
                = (tr @ tr2 @ [BatchUpdate spreadsheetID (formatRequest sheetID rng [] formatType),
                               PrintJSON [(''format'', formatType), (''status'', ''success'')]],
                   None)"
    if "GetSheetsService w = (tr, Inr service)"
       "GetSheetID w spreadsheetID sheetName = (tr2, Inr sheetID)"
       "ParseRange rangeA1 = Inr rng" "batchUpdateError w = None"
    for tr service tr2
    using that by (simp add: runFormatCells_def)
  have "GetDefaultFormatPattern ''TEXT'' = []"
    by (simp add: GetDefaultFormatPattern_def defaultFormatPatterns_def)
  with p r run show ?thesis by (simp)
qed

text \<open>The theorem at the type TEXT, on a run of the command with a stored token.\<close>

theorem GetDefaultFormatPattern_unknown_witness:
  "''TEXT'' \<notin> {''NUMBER'', ''CURRENCY'', ''DATE'', ''PERCENT'', ''TIME''}
   \<and> GetDefaultFormatPattern ''TEXT'' = []
   \<and> runFormatCells storedTokenWorld [] ''sheet-id'' ''Sheet1'' ''A1:B2'' ''TEXT''
       = ([SpreadsheetsGet ''sheet-id'',
           BatchUpdate ''sheet-id''
             \<lparr>Range = \<lparr>SheetId = 7, StartRowIndex = 0, EndRowIndex = 2,
                        StartColumnIndex = 0, EndColumnIndex = 2\<rparr>,
              CellNumberFormat = \<lparr>Type = ''TEXT'', Pattern = []\<rparr>,
              Fields = ''userEnteredFormat.numberFormat''\<rparr>,
           PrintJSON [(''format'', ''TEXT''), (''status'', ''success'')]],
          None)"
proof -
  have s: "GetSheetsService storedTokenWorld = ([], Inr ''token'')"
    by (simp add: GetSheetsService_def GetClient_def storedTokenWorld_def)
  have i: "GetSheetID storedTokenWorld ''sheet-id'' ''Sheet1'' = ([SpreadsheetsGet ''sheet-id''], Inr 7)"
    by (simp add: GetSheetID_def storedTokenWorld_def)
  have r: "ParseRange ''A1:B2'' = Inr (0, 0, 1, 1)"
    by (simp add: ParseRange_def eval_defs)
  have b: "batchUpdateError storedTokenWorld = None"
    by (simp add: storedTokenWorld_def)
  have f: "formatRequest 7 (0, 0, 1, 1) [] ''TEXT''
      = \<lparr>Range = \<lparr>SheetId = 7, StartRowIndex = 0, EndRowIndex = 2,
                        StartColumnIndex = 0, EndColumnIndex = 2\<rparr>,
              CellNumberFormat = \<lparr>Type = ''TEXT'', Pattern = []\<rparr>,
              Fields = ''userEnteredFormat.numberFormat''\<rparr>"
    by (simp add: formatRequest_def GetDefaultFormatPattern_def defaultFormatPatterns_def)
  from GetDefaultFormatPattern_unknown
         [of "''TEXT''" 7 "(0, 0, 1, 1)" storedTokenWorld "''sheet-id''" "''Sheet1''" "''A1:B2''"]
       s i r b f
  show ?thesis by (simp)
qed


section \<open>readCSV\<close>

lemma fillRow_eq:
  "j + length vs \<le> length row \<Longrightarrow>
     fillRow vs j row = take j row @ map IString vs @ drop (j + length vs) row"
proof (induction vs arbitrary: j row)
  case Nil
  show ?case by simp
next
  case (Cons v vs)
  then have j: "j < length row" and le: "Suc j + length vs \<le> length (row[j := IString v])"
    by simp_all
  have t: "take (Suc j) (row[j := IString v]) = take j row @ [IString v]"
    using j by (simp add: take_Suc_conv_app_nth)
  have d: "drop (Suc j + length vs) (row[j := IString v]) = drop (Suc j + length vs) row"
    by simp
  show ?case
    using Cons.IH [OF le] by (simp only: fillRow.simps t d) simp
qed

lemma fillRow_fresh:
  "fillRow r 0 (replicate (length r) INil) = map IString r"
  using fillRow_eq [of 0 r "replicate (length r) INil"] by simp

lemma fillValues_eq:
  "i + length records \<le> length vals \<Longrightarrow>
     fillValues records i vals
       = take i vals @ map (map IString) records @ drop (i + length records) vals"
proof (induction records arbitrary: i vals)
  case Nil
  show ?case by simp
next
  case (Cons r rs)
  let ?row = "map IString r"
  from Cons.prems have i: "i < length vals" and le: "Suc i + length rs \<le> length (vals[i := ?row])"
    by simp_all
  have t: "take (Suc i) (vals[i := ?row]) = take i vals @ [?row]"
    using i by (simp add: take_Suc_conv_app_nth)
  have d: "drop (Suc i + length rs) (vals[i := ?row]) = drop (Suc i + length rs) vals"
    by simp
  show ?case
    using Cons.IH [OF le] by (simp only: fillValues.simps fillRow_fresh t d) simp
qed

lemma fillValues_fresh:
  "fillValues records 0 (replicate (length records) []) = map (map IString) records"
  using fillValues_eq [of 0 records "replicate (length records) []"] by simp

text \<open>
  Claim C8. When the file opens and the CSV reader yields a list of records, \<^verbatim>\<open>readCSV\<close>
  returns a matrix with one row for each record, in order, each row as long as its record,
  and each cell the string of the corresponding field.
\<close>

theorem readCSV_matrix:
  "openFile w path = Inr file \<and> csvReadAll w file = Inr records \<longrightarrow>
     (\<exists>vals. readCSV w path = Inr vals
        \<and> length vals = length records
        \<and> (\<forall>i < length records.
              length (vals ! i) = length (records ! i)
              \<and> (\<forall>j < length (records ! i). vals ! i ! j = IString (records ! i ! j))))"
proof
  assume "openFile w path = Inr file \<and> csvReadAll w file = Inr records"
  then have "readCSV w path = Inr (map (map IString) records)"
    by (simp add: readCSV_def fillValues_fresh)
  then show "\<exists>vals. readCSV w path = Inr vals
        \<and> length vals = length records
        \<and> (\<forall>i < length records.
              length (vals ! i) = length (records ! i)
              \<and> (\<forall>j < length (records ! i). vals ! i ! j = IString (records ! i ! j)))"
    by simp
qed

text \<open>The theorem on a file of two records of two fields.\<close>

theorem readCSV_matrix_witness:
  "openFile storedTokenWorld ''data.csv'' = Inr ''a,b;c,d''
   \<and> csvReadAll storedTokenWorld ''a,b;c,d'' = Inr [[''a'', ''b''], [''c'', ''d'']]
   \<and> (\<exists>vals. readCSV storedTokenWorld ''data.csv'' = Inr vals
         \<and> length vals = 2 \<and> length (vals ! 1) = 2 \<and> vals ! 1 ! 0 = IString ''c'')"
proof -
  have h: "openFile storedTokenWorld ''data.csv'' = Inr ''a,b;c,d''
      \<and> csvReadAll storedTokenWorld ''a,b;c,d'' = Inr [[''a'', ''b''], [''c'', ''d'']]"
    by (simp add: storedTokenWorld_def)
  from readCSV_matrix [of storedTokenWorld "''data.csv''" "''a,b;c,d''"
                          "[[''a'', ''b''], [''c'', ''d'']]"] h
  obtain vals where v: "readCSV storedTokenWorld ''data.csv'' = Inr vals"
    and l: "length vals = 2"
    and c: "\<forall>i < 2. length (vals ! i) = length ([[''a'', ''b''], [''c'', ''d'']] ! i)
              \<and> (\<forall>j < length ([[''a'', ''b''], [''c'', ''d'']] ! i).
                     vals ! i ! j = IString ([[''a'', ''b''], [''c'', ''d'']] ! i ! j))"
    by auto
  from c [rule_format, of 1] have "length (vals ! 1) = 2" "vals ! 1 ! 0 = IString ''c''"
    by simp_all
  with h v l show ?thesis by simp
qed


section \<open>The authorization flow and add-data\<close>

lemma requestTokenFromWeb_cases:
  obtains (err) e where
      "requestTokenFromWeb w config =
         ([ListenAndServe CallbackServerPort,
           Stdout (''Go to the following link in your browser:'' @ newline
                   @ authCodeURL w config @ newline @ newline),
           Stdout (''Waiting for authentication...'' @ newline),
           Shutdown], Inl e)"
  | (code) authCode r where
      "requestTokenFromWeb w config =
         ([ListenAndServe CallbackServerPort,
           Stdout (''Go to the following link in your browser:'' @ newline
                   @ authCodeURL w config @ newline @ newline),
           Stdout (''Waiting for authentication...'' @ newline),
           Shutdown, TokenExchange authCode], r)"
  by (cases "selectOutcome (authEvent w)")
     (auto simp: requestTokenFromWeb_def Let_def)

lemma requestTokenFromWeb_no_sheets_call:
  "requestTokenFromWeb w config = (tr, res) \<Longrightarrow> list_all (\<lambda>e. \<not> isSheetsCall e) tr"
  by (cases rule: requestTokenFromWeb_cases [of w config]) (auto simp: isSheetsCall_def)

lemma GetClient_no_sheets_call:
  "GetClient w = (tr, res) \<Longrightarrow> list_all (\<lambda>e. \<not> isSheetsCall e) tr"
  by (auto simp: GetClient_def saveToken_def isSheetsCall_def
           split: sum.splits prod.splits option.splits
           dest: requestTokenFromWeb_no_sheets_call)

lemma GetSheetsService_no_sheets_call:
  "GetSheetsService w = (tr, res) \<Longrightarrow> list_all (\<lambda>e. \<not> isSheetsCall e) tr"
  by (auto simp: GetSheetsService_def split: sum.splits prod.splits option.splits
           dest: GetClient_no_sheets_call)

lemma GetSheetsService_stored_token:
  assumes "readCredentials w = Inr credentials" "configFromJSON w credentials = Inr config"
    "loadTokenResult w = Inr token" "newServiceError w = None"
  shows "GetSheetsService w = ([], Inr token)"
  using assms by (simp add: GetSheetsService_def GetClient_def)

lemma Contains_JSON: "Contains (''invalid JSON values: '' @ e) ''JSON''"
  by simp

lemma runAddData_after_service:
  assumes "jsonUnmarshal w valuesJSON = Inl jerr"
  shows "GetSheetsService w = (tr, Inr service) \<Longrightarrow>
           runAddData w m sid sh rg valuesJSON = (tr, Some (''invalid JSON values: '' @ jerr))"
    and "GetSheetsService w = (tr, Inl err) \<Longrightarrow>
           runAddData w m sid sh rg valuesJSON = (tr, Some err)"
  using assms by (simp_all add: runAddData_def)

text \<open>
  Claim C7, as the code has it. \<^verbatim>\<open>runAddData\<close> obtains the Sheets service first and
  examines the JSON after. On a values argument that is not valid JSON for a 2-D array the
  command always exits with status 1 and never calls the spreadsheet service. When the
  service is obtained, the error is \<^verbatim>\<open>invalid JSON values: ...\<close>, which mentions JSON, and
  nothing is done beyond what obtaining the service did; with readable credentials and a
  stored token that is nothing at all. When obtaining the service fails, its error is the
  error of the command.
\<close>

theorem runAddData_invalid_JSON:
  "jsonUnmarshal w valuesJSON = Inl jerr \<longrightarrow>
     snd (main (runAddData w m sid sh rg valuesJSON)) = 1
     \<and> list_all (\<lambda>e. \<not> isSheetsCall e) (fst (main (runAddData w m sid sh rg valuesJSON)))
     \<and> (\<forall>tr service. GetSheetsService w = (tr, Inr service) \<longrightarrow>
           runAddData w m sid sh rg valuesJSON
             = (tr, Some (''invalid JSON values: '' @ jerr))
           \<and> Contains (''invalid JSON values: '' @ jerr) ''JSON'')
     \<and> (\<forall>tr err. GetSheetsService w = (tr, Inl err) \<longrightarrow>
           runAddData w m sid sh rg valuesJSON = (tr, Some err))
     \<and> (\<forall>credentials config token.
           readCredentials w = Inr credentials \<and> configFromJSON w credentials = Inr config
           \<and> loadTokenResult w = Inr token \<and> newServiceError w = None \<longrightarrow>
             main (runAddData w m sid sh rg valuesJSON)
               = ([Stderr (''invalid JSON values: '' @ jerr @ newline)], 1))"
proof
  assume j: "jsonUnmarshal w valuesJSON = Inl jerr"
  let ?run = "runAddData w m sid sh rg valuesJSON"
  obtain tr res where g: "GetSheetsService w = (tr, res)" by (cases "GetSheetsService w")
  have clean: "list_all (\<lambda>e. \<not> isSheetsCall e) tr"
    by (rule GetSheetsService_no_sheets_call [OF g])
  have "\<exists>e. ?run = (tr, Some e)"
    using runAddData_after_service [OF j, of tr _ m sid sh rg] g by (cases res) auto
  then obtain e where run: "?run = (tr, Some e)" ..
  have exit: "snd (main ?run) = 1" by (simp add: run main_def)
  have trace: "list_all (\<lambda>e. \<not> isSheetsCall e) (fst (main ?run))"
    using clean by (simp add: run main_def isSheetsCall_def)
  have ok: "\<forall>tr service. GetSheetsService w = (tr, Inr service) \<longrightarrow>
           ?run = (tr, Some (''invalid JSON values: '' @ jerr))
           \<and> Contains (''invalid JSON values: '' @ jerr) ''JSON''"
    using runAddData_after_service(1) [OF j] Contains_JSON by blast
  have failed: "\<forall>tr err. GetSheetsService w = (tr, Inl err) \<longrightarrow> ?run = (tr, Some err)"
    using runAddData_after_service(2) [OF j] by blast
  have stored: "\<forall>credentials config token.
           readCredentials w = Inr credentials \<and> configFromJSON w credentials = Inr config
           \<and> loadTokenResult w = Inr token \<and> newServiceError w = None \<longrightarrow>
             main ?run = ([Stderr (''invalid JSON values: '' @ jerr @ newline)], 1)"
  proof (intro allI impI, elim conjE)
    fix credentials config token
    assume "readCredentials w = Inr credentials" "configFromJSON w credentials = Inr config"
      "loadTokenResult w = Inr token" "newServiceError w = None"
    then have "GetSheetsService w = ([], Inr token)" by (rule GetSheetsService_stored_token)
    then have "?run = ([], Some (''invalid JSON values: '' @ jerr))"
      by (rule runAddData_after_service(1) [OF j])
    then show "main ?run = ([Stderr (''invalid JSON values: '' @ jerr @ newline)], 1)"
      by (simp add: main_def)
  qed
  show "snd (main ?run) = 1
     \<and> list_all (\<lambda>e. \<not> isSheetsCall e) (fst (main ?run))
     \<and> (\<forall>tr service. GetSheetsService w = (tr, Inr service) \<longrightarrow>
           ?run = (tr, Some (''invalid JSON values: '' @ jerr))
           \<and> Contains (''invalid JSON values: '' @ jerr) ''JSON'')
     \<and> (\<forall>tr err. GetSheetsService w = (tr, Inl err) \<longrightarrow> ?run = (tr, Some err))
     \<and> (\<forall>credentials config token.
           readCredentials w = Inr credentials \<and> configFromJSON w credentials = Inr config
           \<and> loadTokenResult w = Inr token \<and> newServiceError w = None \<longrightarrow>
             main ?run = ([Stderr (''invalid JSON values: '' @ jerr @ newline)], 1))"
    by (intro conjI exit trace ok failed stored)
qed

text \<open>The theorem on a run with a stored token and the values argument \<^verbatim>\<open>not json\<close>.\<close>

theorem runAddData_invalid_JSON_witness:
  "jsonUnmarshal storedTokenWorld ''not json'' = Inl ''invalid character in JSON text''
   \<and> main (runAddData storedTokenWorld True ''sheet-id'' ''Sheet1'' ''A1:B2'' ''not json'')
       = ([Stderr (''invalid JSON values: invalid character in JSON text'' @ newline)], 1)"
proof -
  have j: "jsonUnmarshal storedTokenWorld ''not json'' = Inl ''invalid character in JSON text''"
    by (simp add: storedTokenWorld_def)
  have s: "readCredentials storedTokenWorld = Inr ''{installed}''
      \<and> configFromJSON storedTokenWorld ''{installed}'' = Inr ''config''
      \<and> loadTokenResult storedTokenWorld = Inr ''token''
      \<and> newServiceError storedTokenWorld = None"
    by (simp add: storedTokenWorld_def)
  from runAddData_invalid_JSON
         [of storedTokenWorld "''not json''" "''invalid character in JSON text''"
             True "''sheet-id''" "''Sheet1''" "''A1:B2''"] j s
  show ?thesis by auto
qed

text \<open>
  Claim C7 as stated fails. With no stored token and a callback that carries no code, the
  command fails on \<^verbatim>\<open>not json\<close> with the error of the authorization, which does not
  mention JSON; with a callback that carries a code, the token is exchanged over the
  network before the JSON is found invalid.
\<close>

theorem runAddData_auth_first_counterexample:
  "jsonUnmarshal (noTokenWorld (Callback [])) ''not json'' = Inl ''invalid character in JSON text''
   \<and> snd (runAddData (noTokenWorld (Callback [])) True ''sheet-id'' ''Sheet1'' ''A1:B2'' ''not json'')
       = Some ''no authorization code in callback''
   \<and> \<not> Contains ''no authorization code in callback'' ''JSON''
   \<and> snd (runAddData (noTokenWorld (Callback ''4/code'')) True ''sheet-id'' ''Sheet1'' ''A1:B2''
            ''not json'')
       = Some ''invalid JSON values: invalid character in JSON text''
   \<and> list_ex isNetworkCall
        (fst (runAddData (noTokenWorld (Callback ''4/code'')) True ''sheet-id'' ''Sheet1'' ''A1:B2''
                ''not json''))"
  by (simp add: noTokenWorld_def storedTokenWorld_def runAddData_def GetSheetsService_def
        GetClient_def requestTokenFromWeb_def selectOutcome_def saveToken_def isNetworkCall_def)


section \<open>ParseColor on six hexadecimal digits\<close>

lemma upper_hex_cases:
  fixes x :: byte
  assumes "65 \<le> x" "x \<le> 70"
  shows "x = 65 \<or> x = 66 \<or> x = 67 \<or> x = 68 \<or> x = 69 \<or> x = 70"
  using assms by unat_arith

lemma lower_hex_cases:
  fixes x :: byte
  assumes "97 \<le> x" "x \<le> 102"
  shows "x = 97 \<or> x = 98 \<or> x = 99 \<or> x = 100 \<or> x = 101 \<or> x = 102"
  using assms by unat_arith

lemma digit_cases:
  fixes x :: byte
  assumes "48 \<le> x" "x \<le> 57"
  shows "unat (x - 48) < 10"
  using assms by unat_arith

lemma digitVal_hex:
  assumes "isHexDigit c"
  shows "\<exists>d. digitVal c = Some d \<and> unat d < 16"
proof -
  consider (dec) "48 \<le> byte_of c" "byte_of c \<le> 57"
    | (up) "65 \<le> byte_of c" "byte_of c \<le> 70"
    | (lo) "97 \<le> byte_of c" "byte_of c \<le> 102"
    using assms by (auto simp: isHexDigit_def)
  then show ?thesis
  proof cases
    case dec
    with digit_cases [OF dec] show ?thesis by (simp add: digitVal_def)
  next
    case up
    from upper_hex_cases [OF up] show ?thesis
      by (auto simp: digitVal_def lower_def)
  next
    case lo
    from lower_hex_cases [OF lo] show ?thesis
      by (auto simp: digitVal_def lower_def)
  qed
qed

lemma hex_not_sign:
  assumes "isHexDigit c"
  shows "c \<noteq> CHR ''+''" "c \<noteq> CHR ''-''"
  using assms by (auto simp: isHexDigit_def byte_of_def)

lemma ParseInt_hex_pair:
  assumes "isHexDigit c1" "isHexDigit c2"
  shows "\<exists>v. ParseInt [c1, c2] 16 = Inr v \<and> 0 \<le> v \<and> v \<le> 255"
proof -
  from digitVal_hex [OF assms(1)] obtain d1 where d1: "digitVal c1 = Some d1" "unat d1 < 16"
    by blast
  from digitVal_hex [OF assms(2)] obtain d2 where d2: "digitVal c2 = Some d2" "unat d2 < 16"
    by blast
  have small: "unat d1 * 16 + unat d2 < 256" using d1(2) d2(2) by simp
  then have big: "unat d1 * 16 + unat d2 < 2 ^ 64" "unat d1 * 16 + unat d2 < 2 ^ 63"
    "unat d1 < 2 ^ 64"
    using d1(2) by simp_all
  have "ParseUint [c1, c2] 16 = Inr (unat d1 * 16 + unat d2)"
    using d1 d2 big by (simp add: ParseUint_def not_le)
  then have "ParseInt [c1, c2] 16 = Inr (int (unat d1 * 16 + unat d2))"
    using hex_not_sign [OF assms(1)] big by (simp add: ParseInt_def not_le)
  moreover have "int (unat d1 * 16 + unat d2) \<le> 255" using small by linarith
  moreover have "0 \<le> int (unat d1 * 16 + unat d2)" by (rule of_nat_0_le_iff)
  ultimately show ?thesis by blast
qed

lemma ParseColor_hex6:
  assumes "length (TrimPrefix hexColor0 ''#'') = 6"
    and "list_all isHexDigit (TrimPrefix hexColor0 ''#'')"
  shows "\<exists>c. ParseColor hexColor0 = Some c
           \<and> 0 \<le> Red c \<and> Red c \<le> 1 \<and> 0 \<le> Green c \<and> Green c \<le> 1
           \<and> 0 \<le> Blue c \<and> Blue c \<le> 1"
proof -
  from assms(1) obtain a b c d e f where h: "TrimPrefix hexColor0 ''#'' = [a, b, c, d, e, f]"
    by (auto simp: length_Suc_conv eval_nat_numeral)
  with assms(2) have hex: "isHexDigit a" "isHexDigit b" "isHexDigit c" "isHexDigit d"
    "isHexDigit e" "isHexDigit f"
    by simp_all
  from ParseInt_hex_pair [OF hex(1,2)] obtain r where
    r: "ParseInt [a, b] 16 = Inr r" "0 \<le> r" "r \<le> 255" by blast
  from ParseInt_hex_pair [OF hex(3,4)] obtain g where
    g: "ParseInt [c, d] 16 = Inr g" "0 \<le> g" "g \<le> 255" by blast
  from ParseInt_hex_pair [OF hex(5,6)] obtain bl where
    bl: "ParseInt [e, f] 16 = Inr bl" "0 \<le> bl" "bl \<le> 255" by blast
  have "ParseColor hexColor0
      = Some \<lparr>Red = of_int r / 255, Green = of_int g / 255, Blue = of_int bl / 255\<rparr>"
    using r(1) g(1) bl(1)
    by (simp add: ParseColor_def h byteSlice_def HexColorLength_def RGBMaxValue_def)
  moreover have "(0 :: rat) \<le> of_int r / 255" "(of_int r :: rat) / 255 \<le> 1"
    "(0 :: rat) \<le> of_int g / 255" "(of_int g :: rat) / 255 \<le> 1"
    "(0 :: rat) \<le> of_int bl / 255" "(of_int bl :: rat) / 255 \<le> 1"
    using r(2,3) g(2,3) bl(2,3) by simp_all
  ultimately show ?thesis by simp
qed

lemma ParseColor_wrong_length:
  "length (TrimPrefix hexColor0 ''#'') \<noteq> 6 \<Longrightarrow> ParseColor hexColor0 = None"
  by (simp add: ParseColor_def HexColorLength_def)


section \<open>The listener goroutine of requestTokenFromWeb\<close>


lemma flowInv_init: "flowInv flowInit"
  by (simp add: flowInv_def flowInit_def)

lemma mainStep_inv:
  assumes "flowInv s" "mainStep w config c s = Some s'"
  shows "flowInv s'"
proof (cases "mainAt s")
  case MEntry
  with assms show ?thesis by (auto simp: mainStep_def flowInv_def)
next
  case MSelect
  with assms show ?thesis
    by (cases c) (auto simp: mainStep_def flowInv_def split: option.splits if_splits)
next
  case (MShutdown outcome)
  with assms show ?thesis
    by (cases outcome) (auto simp: mainStep_def flowInv_def serverShutdown_def)
next
  case (MExchange authCode)
  with assms show ?thesis by (auto simp: mainStep_def flowInv_def)
next
  case (MReturned r)
  with assms show ?thesis by (simp add: mainStep_def)
qed

lemma listenerStep_inv:
  assumes "flowInv s" "listenerStep listenResult s = Some s'"
  shows "flowInv s'"
proof (cases "listenerAt s")
  case LNotStarted
  with assms show ?thesis by (simp add: listenerStep_def)
next
  case LEntered
  with assms show ?thesis by (auto simp: listenerStep_def flowInv_def)
next
  case LPassedTest
  with assms show ?thesis
    by (cases listenResult) (auto simp: listenerStep_def flowInv_def)
next
  case LBound
  with assms show ?thesis
    by (cases "inShutdown s") (auto simp: listenerStep_def flowInv_def)
next
  case LServing
  with assms show ?thesis
    by (cases "inShutdown s") (auto simp: listenerStep_def flowInv_def)
next
  case LDone
  with assms show ?thesis by (simp add: listenerStep_def)
qed


lemma flowInv_channels:
  "flowInv (s\<lparr>errChan := e\<rparr>) = flowInv s"
  "flowInv (s\<lparr>codeChan := c\<rparr>) = flowInv s"
  "flowInv (s\<lparr>ctxDone := d\<rparr>) = flowInv s"
  by (simp_all add: flowInv_def)

lemma callbackStep_inv:
  assumes "flowInv s" "callbackStep code s = Some s'"
  shows "flowInv s'"
proof -
  from assms(2) have "(\<exists>e. s' = s\<lparr>errChan := e\<rparr>) \<or> (\<exists>c. s' = s\<lparr>codeChan := c\<rparr>)"
    unfolding callbackStep_def by (metis option.distinct(1) option.inject)
  then show ?thesis using assms(1) by (auto simp only: flowInv_channels)
qed

lemma flowStep_inv_cancel:
  assumes "flowInv s" "flowStep w config CancelContext s = Some s'"
  shows "flowInv s'"
proof -
  from assms(2) have "s' = s\<lparr>ctxDone := True\<rparr>" by (simp add: flowStep_def)
  with assms(1) show ?thesis by (simp only: flowInv_channels)
qed

lemma flowStep_inv:
  assumes "flowInv s" "flowStep w config a s = Some s'"
  shows "flowInv s'"
proof (cases a)
  case (MainStep c)
  with assms(2) have "mainStep w config c s = Some s'" by (simp add: flowStep_def)
  with assms(1) show ?thesis by (rule mainStep_inv)
next
  case (ListenerStep r)
  with assms(2) have "listenerStep r s = Some s'" by (simp add: flowStep_def)
  with assms(1) show ?thesis by (rule listenerStep_inv)
next
  case (BrowserCallback code)
  with assms(2) have "callbackStep code s = Some s'" by (simp add: flowStep_def)
  with assms(1) show ?thesis by (rule callbackStep_inv)
next
  case CancelContext
  with assms show ?thesis by (auto intro: flowStep_inv_cancel)
qed

lemma runFlow_inv:
  "flowInv s \<Longrightarrow> runFlow w config as s = Some s' \<Longrightarrow> flowInv s'"
proof (induction as arbitrary: s)
  case Nil
  then show ?case by simp
next
  case (Cons a as)
  from Cons.prems(2) obtain s1 where s1: "flowStep w config a s = Some s1"
    and rest: "runFlow w config as s1 = Some s'"
    by (auto split: option.splits)
  from flowStep_inv [OF Cons.prems(1) s1] rest show ?case by (rule Cons.IH)
qed

text \<open>
  On every schedule, when \<^verbatim>\<open>requestTokenFromWeb\<close> has returned, \<^verbatim>\<open>server.Shutdown\<close> has
  been called: each branch of the \<^verbatim>\<open>select\<close> reaches it. The port can then be bound only
  by a listener that \<^verbatim>\<open>net.Listen\<close> has bound and \<^verbatim>\<open>Serve\<close> has not yet registered, and
  once the listener goroutine is done the port is free.
\<close>

lemma returned_after_Shutdown:
  assumes "runFlow w config as flowInit = Some s" "hasReturned s"
  shows "inShutdown s"
    and "\<not> tracked s"
    and "portBound s \<longrightarrow> listenerAt s = LBound"
    and "listenerAt s = LDone \<longrightarrow> \<not> portBound s"
proof -
  have inv: "flowInv s" by (rule runFlow_inv [OF flowInv_init assms(1)])
  from assms(2) obtain r where "mainAt s = MReturned r"
    by (cases "mainAt s") (simp_all add: hasReturned_def)
  with inv show "inShutdown s" "\<not> tracked s" "portBound s \<longrightarrow> listenerAt s = LBound"
    "listenerAt s = LDone \<longrightarrow> \<not> portBound s"
    by (auto simp: flowInv_def)
qed

lemmas flow_defs =
  flowStep_def mainStep_def listenerStep_def callbackStep_def serverShutdown_def flowInit_def
  hasReturned_def


text \<open>
  The goroutine closes that listener itself at its next step, when \<^verbatim>\<open>Serve\<close> finds the
  server shutting down, after the function has returned.
\<close>

lemma port_released_after_return:
  "runFlow (noTokenWorld CtxDone) ''config''
     [CancelContext, MainStep CaseDone, ListenerStep None, MainStep CaseDone,
      ListenerStep None, MainStep CaseDone, ListenerStep None]
     flowInit
   = Some \<lparr>mainAt = MReturned (Inl ''authentication cancelled''), listenerAt = LDone,
            inShutdown = True, tracked = False, portBound = False,
            codeChan = None, errChan = None, ctxDone = True\<rparr>"
  by (simp add: flow_defs)

text \<open>
  With a callback that carries a code the listener is serving when the \<^verbatim>\<open>select\<close> wakes
  up, and \<^verbatim>\<open>server.Shutdown\<close> closes it before the token is exchanged.
\<close>

lemma code_path_releases_port:
  "runFlow storedTokenWorld ''config''
     [MainStep CaseDone, ListenerStep None, ListenerStep None, ListenerStep None,
      BrowserCallback ''4/code'', MainStep CaseCode, MainStep CaseCode, MainStep CaseCode]
     flowInit
   = Some \<lparr>mainAt = MReturned (Inr ''fresh-token''), listenerAt = LServing,
            inShutdown = True, tracked = False, portBound = False,
            codeChan = None, errChan = None, ctxDone = False\<rparr>"
  by (simp add: flow_defs storedTokenWorld_def)


section \<open>Where the port can be left bound\<close>

lemma servedInv_init: "servedInv flowInit"
  by (simp add: servedInv_def flowInit_def)

lemma mainStep_served:
  assumes "flowInv s" "servedInv s" "mainStep w config c s = Some s'"
  shows "servedInv s'"
proof (cases "mainAt s")
  case MEntry
  with assms(3) have s': "s' = s\<lparr>mainAt := MSelect, listenerAt := LEntered\<rparr>"
    by (simp add: mainStep_def)
  from assms(1) MEntry have "listenerAt s = LNotStarted" by (simp add: flowInv_def)
  with assms(2) MEntry have "codeChan s = None \<and> errChan s = None"
    by (auto simp: servedInv_def)
  with s' show ?thesis by (simp add: servedInv_def)
next
  case MSelect
  with assms(2,3) show ?thesis
    by (cases c) (auto simp: mainStep_def servedInv_def split: option.splits if_splits)
next
  case (MShutdown outcome)
  with assms(2,3) show ?thesis
    by (cases outcome) (auto simp: mainStep_def servedInv_def serverShutdown_def)
next
  case (MExchange authCode)
  with assms(2,3) show ?thesis
    by (cases "exchange w config authCode") (auto simp: mainStep_def servedInv_def)
next
  case (MReturned r)
  with assms(3) show ?thesis by (simp add: mainStep_def)
qed

lemma listenerStep_served:
  assumes "servedInv s" "listenerStep listenResult s = Some s'"
  shows "servedInv s'"
proof (cases "listenerAt s")
  case LNotStarted
  with assms show ?thesis by (simp add: listenerStep_def)
next
  case LEntered
  with assms show ?thesis by (auto simp: listenerStep_def servedInv_def)
next
  case LPassedTest
  with assms show ?thesis
    by (cases listenResult) (auto simp: listenerStep_def servedInv_def)
next
  case LBound
  with assms show ?thesis
    by (cases "inShutdown s") (auto simp: listenerStep_def servedInv_def)
next
  case LServing
  with assms show ?thesis
    by (cases "inShutdown s") (auto simp: listenerStep_def servedInv_def)
next
  case LDone
  with assms show ?thesis by (simp add: listenerStep_def)
qed

lemma callbackStep_served:
  assumes "servedInv s" "callbackStep code s = Some s'"
  shows "servedInv s'"
proof -
  from assms(2) have serving: "listenerAt s = LServing"
    by (auto simp: callbackStep_def split: if_splits)
  from assms(2) have "(\<exists>e. s' = s\<lparr>errChan := e\<rparr>) \<or> (\<exists>c. s' = s\<lparr>codeChan := c\<rparr>)"
    unfolding callbackStep_def by (metis option.distinct(1) option.inject)
  with serving show ?thesis by (auto simp: servedInv_def)
qed

lemma flowStep_served:
  assumes "flowInv s" "servedInv s" "flowStep w config a s = Some s'"
  shows "servedInv s'"
proof (cases a)
  case (MainStep c)
  with assms(3) have "mainStep w config c s = Some s'" by (simp add: flowStep_def)
  with assms(1,2) show ?thesis by (rule mainStep_served)
next
  case (ListenerStep r)
  with assms(3) have "listenerStep r s = Some s'" by (simp add: flowStep_def)
  with assms(2) show ?thesis by (rule listenerStep_served)
next
  case (BrowserCallback code)
  with assms(3) have "callbackStep code s = Some s'" by (simp add: flowStep_def)
  with assms(2) show ?thesis by (rule callbackStep_served)
next
  case CancelContext
  with assms(3) have "s' = s\<lparr>ctxDone := True\<rparr>" by (simp add: flowStep_def)
  with assms(2) show ?thesis by (simp add: servedInv_def)
qed

lemma runFlow_served:
  "flowInv s \<Longrightarrow> servedInv s \<Longrightarrow> runFlow w config as s = Some s' \<Longrightarrow> servedInv s'"
proof (induction as arbitrary: s)
  case Nil
  then show ?case by simp
next
  case (Cons a as)
  from Cons.prems(3) obtain s1 where s1: "flowStep w config a s = Some s1"
    and rest: "runFlow w config as s1 = Some s'"
    by (auto split: option.splits)
  from flowStep_inv [OF Cons.prems(1) s1] flowStep_served [OF Cons.prems(1,2) s1] rest
  show ?case by (rule Cons.IH)
qed

text \<open>
  So the port can be left bound only on the cancellation path: on every schedule, when
  \<^verbatim>\<open>requestTokenFromWeb\<close> has returned anything but \<^verbatim>\<open>authentication cancelled\<close>, a token
  or another error, the port is free.
\<close>

lemma port_free_unless_cancelled:
  assumes "runFlow w config as flowInit = Some s" "mainAt s = MReturned r"
    "r \<noteq> Inl ''authentication cancelled''"
  shows "\<not> portBound s"
proof -
  have inv: "flowInv s" by (rule runFlow_inv [OF flowInv_init assms(1)])
  have "servedInv s" by (rule runFlow_served [OF flowInv_init servedInv_init assms(1)])
  with assms(2,3) have quiet: "listenerAt s = LServing \<or> listenerAt s = LDone"
    by (simp add: servedInv_def)
  from inv assms(2) have "inShutdown s" "\<not> tracked s" by (auto simp: flowInv_def)
  with inv quiet show ?thesis by (auto simp: flowInv_def)
qed


end
